theory Spec2Isabelle
  imports Main "HOL-Library.Sublist"
begin

section \<open>Data model\<close>

text \<open>
  The grid model of the maze search: coordinates, the maze size, wall rectangles and the
  problem record that the search functions receive.  JavaScript numbers that hold grid
  positions are modelled as unbounded integers.
\<close>

record coordinate =
  x_of :: int
  y_of :: int

record maze_size =
  rows :: int
  columns :: int

record wall =
  wall_x :: int
  wall_y :: int
  wall_columns :: int
  wall_rows :: int

record problem =
  mazeSize :: maze_size
  agentLocation :: coordinate
  goals :: "coordinate list"
  walls :: "wall list"

text \<open>The object returned by \<open>calculateManhattan\<close>.\<close>

record heuristic_cost =
  fromCurrentNode :: int
  fromStartingNode :: int
  nodesTravelled :: nat

text \<open>
  A search node.  Every node carries the whole list of its ancestors by value, so the
  type is recursive through lists.
\<close>

datatype node = Node
  (direction: string)
  (coordinates: coordinate)
  (isGoal: bool)
  (previousCoordinates: "node list")
  (distanceToGoal: heuristic_cost)
  (depth: int)

datatype status = Found | Fail

text \<open>
  The five single-frontier strategies return search nodes in \<open>path\<close>; the bidirectional
  strategy returns freshly built objects that have a \<open>direction\<close> field only.
\<close>

datatype path_entry = FullNode node | DirectionOnly string

fun entry_direction :: "path_entry \<Rightarrow> string" where
  "entry_direction (FullNode n) = direction n"
| "entry_direction (DirectionOnly d) = d"

record solution =
  status :: status
  path :: "path_entry list"
  searchTree :: "node list"

section \<open>The node expansion engine\<close>

text \<open>
  \<open>_.inRange(number, start, end)\<close> of lodash: \<open>start \<le> number < end\<close>, with the two
  bounds swapped when \<open>start\<close> is greater than \<open>end\<close>.
\<close>

definition inRange :: "int \<Rightarrow> int \<Rightarrow> int \<Rightarrow> bool" where
  "inRange n start stop = (min start stop \<le> n \<and> n < max start stop)"

definition checkGoal :: "coordinate \<Rightarrow> coordinate \<Rightarrow> bool" where
  "checkGoal searchLocation goal =
     (x_of goal = x_of searchLocation \<and> y_of goal = y_of searchLocation)"

definition checkWall :: "coordinate \<Rightarrow> wall list \<Rightarrow> bool" where
  "checkWall searchLocation ws =
     list_ex (\<lambda>w. inRange (x_of searchLocation) (wall_x w) (wall_x w + wall_columns w) \<and>
                  inRange (y_of searchLocation) (wall_y w) (wall_y w + wall_rows w)) ws"

definition checkOutOfBounds :: "coordinate \<Rightarrow> maze_size \<Rightarrow> bool" where
  "checkOutOfBounds searchLocation ms =
     (x_of searchLocation < 0 \<or> x_of searchLocation \<ge> columns ms \<or>
      y_of searchLocation < 0 \<or> y_of searchLocation \<ge> rows ms)"

definition checkBacktrack :: "coordinate \<Rightarrow> node list \<Rightarrow> bool" where
  "checkBacktrack searchLocation tree =
     list_ex (\<lambda>p. x_of (coordinates p) = x_of searchLocation \<and>
                  y_of (coordinates p) = y_of searchLocation) tree"

definition manhattan :: "coordinate \<Rightarrow> coordinate \<Rightarrow> int" where
  "manhattan searchLocation goal =
     \<bar>y_of goal - y_of searchLocation\<bar> + \<bar>x_of goal - x_of searchLocation\<bar>"

text \<open>
  \<open>_.get(previousCoordinates[nodesTravelled - 1], "distanceToGoal.fromStartingNode", 0)\<close>
  is the field of the last ancestor, and the default 0 when there is no ancestor.
\<close>

definition calculateManhattan :: "coordinate \<Rightarrow> node list \<Rightarrow> coordinate \<Rightarrow> heuristic_cost" where
  "calculateManhattan searchLocation prev goal =
     (let travelled = length prev;
          distance = manhattan searchLocation goal;
          currentDistance =
            (if prev = [] then 0 else fromStartingNode (distanceToGoal (last prev)))
      in \<lparr>fromCurrentNode = distance,
          fromStartingNode = currentDistance + distance,
          nodesTravelled = travelled\<rparr>)"

definition directionString :: "string list" where
  "directionString = [''up; '', ''left; '', ''down; '', ''right; '']"

definition searchLocations :: "coordinate \<Rightarrow> coordinate list" where
  "searchLocations currentLocation =
     [\<lparr>x_of = x_of currentLocation, y_of = y_of currentLocation - 1\<rparr>,
      \<lparr>x_of = x_of currentLocation - 1, y_of = y_of currentLocation\<rparr>,
      \<lparr>x_of = x_of currentLocation, y_of = y_of currentLocation + 1\<rparr>,
      \<lparr>x_of = x_of currentLocation + 1, y_of = y_of currentLocation\<rparr>]"

definition searchSpace :: "coordinate \<Rightarrow> node list \<Rightarrow> coordinate \<Rightarrow> node list" where
  "searchSpace currentLocation pth goal =
     map (\<lambda>(c, compass).
            Node compass c (checkGoal c goal) pth (calculateManhattan c pth goal)
              ((if pth = [] then 0 else depth (last pth)) + 1))
         (zip (searchLocations currentLocation) directionString)"

definition probeCoordinates ::
  "coordinate \<Rightarrow> node list \<Rightarrow> maze_size \<Rightarrow> coordinate \<Rightarrow> wall list \<Rightarrow> node list \<Rightarrow> node list" where
  "probeCoordinates currentLocation pth ms goal ws tree =
     filter (\<lambda>n. \<not> (checkWall (coordinates n) ws \<or>
                     checkOutOfBounds (coordinates n) ms \<or>
                     checkBacktrack (coordinates n) tree))
            (searchSpace currentLocation pth goal)"

definition getInitialNode :: "coordinate \<Rightarrow> coordinate \<Rightarrow> node" where
  "getInitialNode agent goal =
     Node ''start; '' agent False [] (calculateManhattan agent [] goal) 0"

section \<open>The search strategies\<close>

text \<open>
  Every strategy is a \<open>while\<close> loop over a frontier and a search tree.  One iteration of
  the loop is the strategy's \<open>_body\<close>: it either returns the solution (\<open>Inl\<close>) or gives
  the frontier and the search tree after the iteration (\<open>Inr\<close>).  The \<open>_loop\<close> function is
  the \<open>while\<close> itself, and the strategy proper sets up the two arrays.  Arrays are lists
  whose last element is the one \<open>pop\<close> removes and behind which \<open>push\<close> appends;
  \<open>shift\<close> removes the head.  \<open>_.tail\<close> is \<open>tl\<close>.
\<close>

definition found :: "node list \<Rightarrow> node list \<Rightarrow> solution" where
  "found pth tree = \<lparr>status = Found, path = map FullNode (tl pth), searchTree = tree\<rparr>"

definition failed :: "node list \<Rightarrow> solution" where
  "failed tree = \<lparr>status = Fail, path = [], searchTree = tree\<rparr>"

definition dfs_body ::
  "problem \<Rightarrow> coordinate \<Rightarrow> node list \<Rightarrow> node list \<Rightarrow> solution + (node list \<times> node list)" where
  "dfs_body p goal frontier tree =
     (let searchLocation = last frontier;
          frontier1 = butlast frontier;
          pth = previousCoordinates searchLocation @ [searchLocation]
      in if isGoal searchLocation then Inl (found pth tree)
         else
           let candidates = rev (probeCoordinates (coordinates searchLocation) pth
                                   (mazeSize p) goal (walls p) tree)
           in Inr (frontier1 @ candidates, tree @ candidates))"

definition bfs_body ::
  "problem \<Rightarrow> coordinate \<Rightarrow> node list \<Rightarrow> node list \<Rightarrow> solution + (node list \<times> node list)" where
  "bfs_body p goal frontier tree =
     (let searchLocation = hd frontier;
          pth = previousCoordinates searchLocation @ [searchLocation]
      in if isGoal searchLocation then Inl (found pth tree)
         else
           let candidates = probeCoordinates (coordinates searchLocation) pth
                              (mazeSize p) goal (walls p) tree
           in Inr (tl (frontier @ candidates), tree @ candidates))"

text \<open>
  \<open>Array.prototype.sort\<close> with the comparator \<open>a.k - b.k\<close> sorts by ascending key and is
  stable; \<open>sort_key\<close> is the stable insertion sort.
\<close>

definition gbfs_body ::
  "problem \<Rightarrow> coordinate \<Rightarrow> node list \<Rightarrow> node list \<Rightarrow> solution + (node list \<times> node list)" where
  "gbfs_body p goal frontier tree =
     (let searchLocation = hd frontier;
          frontier1 = tl frontier;
          pth = previousCoordinates searchLocation @ [searchLocation]
      in if isGoal searchLocation then Inl (found pth tree)
         else
           let candidates = probeCoordinates (coordinates searchLocation) pth
                              (mazeSize p) goal (walls p) tree
           in Inr (sort_key (\<lambda>n. fromCurrentNode (distanceToGoal n)) (frontier1 @ candidates),
                   tree @ candidates))"

definition aStar_body ::
  "problem \<Rightarrow> coordinate \<Rightarrow> node list \<Rightarrow> node list \<Rightarrow> solution + (node list \<times> node list)" where
  "aStar_body p goal frontier tree =
     (let searchLocation = hd frontier;
          frontier1 = tl frontier;
          pth = previousCoordinates searchLocation @ [searchLocation]
      in if isGoal searchLocation then Inl (found pth tree)
         else
           let candidates = probeCoordinates (coordinates searchLocation) pth
                              (mazeSize p) goal (walls p) tree
           in Inr (sort_key (\<lambda>n. fromStartingNode (distanceToGoal n)) (frontier1 @ candidates),
                   tree @ candidates))"

definition depthLimit :: int where
  "depthLimit = 10"

text \<open>
  \<open>_.get(candidates[0], "depth", 0)\<close> is the depth of the first candidate, and 0 when
  there is no candidate.
\<close>

definition firstDepth :: "node list \<Rightarrow> int" where
  "firstDepth candidates = (case candidates of [] \<Rightarrow> 0 | c # _ \<Rightarrow> depth c)"

definition customOne_body ::
  "problem \<Rightarrow> coordinate \<Rightarrow> node list \<Rightarrow> node list \<Rightarrow> solution + (node list \<times> node list)" where
  "customOne_body p goal frontier tree =
     (let searchLocation = last frontier;
          frontier1 = butlast frontier;
          pth = previousCoordinates searchLocation @ [searchLocation]
      in if isGoal searchLocation then Inl (found pth tree)
         else
           let candidates = rev (probeCoordinates (coordinates searchLocation) pth
                                   (mazeSize p) goal (walls p) tree)
           in Inr (if firstDepth candidates \<noteq> depthLimit + 1 then frontier1 @ candidates
                   else frontier1,
                   tree @ candidates))"

subsection \<open>Termination of the loops\<close>

text \<open>
  An iteration removes one node from the frontier and adds at most four candidates, all at
  cells inside the maze that the search tree does not hold yet.  The number of such cells
  bounds the run.
\<close>

definition unexplored :: "maze_size \<Rightarrow> node list \<Rightarrow> nat" where
  "unexplored ms tree = card ({c. \<not> checkOutOfBounds c ms} - coordinates ` set tree)"

lemma coordinate_eq_iff:
  fixes c d :: coordinate
  shows "c = d \<longleftrightarrow> x_of c = x_of d \<and> y_of c = y_of d"
  by (cases c, cases d) simp

lemma checkBacktrack_iff: "checkBacktrack c tree \<longleftrightarrow> c \<in> coordinates ` set tree"
proof -
  have "(x_of (coordinates p) = x_of c \<and> y_of (coordinates p) = y_of c) \<longleftrightarrow> c = coordinates p"
    for p by (auto simp: coordinate_eq_iff)
  then show ?thesis
    by (simp add: checkBacktrack_def list_ex_iff image_iff)
qed

lemma finite_inside: "finite {c. \<not> checkOutOfBounds c ms}"
proof -
  have "{c. \<not> checkOutOfBounds c ms}
          \<subseteq> (\<lambda>(a, b). \<lparr>x_of = a, y_of = b\<rparr>) ` ({0..<columns ms} \<times> {0..<rows ms})"
  proof
    fix c assume "c \<in> {c. \<not> checkOutOfBounds c ms}"
    then have "(x_of c, y_of c) \<in> {0..<columns ms} \<times> {0..<rows ms}"
      by (auto simp: checkOutOfBounds_def)
    moreover have "c = (\<lambda>(a, b). \<lparr>x_of = a, y_of = b\<rparr>) (x_of c, y_of c)"
      by simp
    ultimately show "c \<in> (\<lambda>(a, b). \<lparr>x_of = a, y_of = b\<rparr>) ` ({0..<columns ms} \<times> {0..<rows ms})"
      by (rule image_eqI [rotated])
  qed
  then show ?thesis
    by (rule finite_subset) simp
qed

lemma length_probeCoordinates: "length (probeCoordinates c pth ms goal ws tree) \<le> 4"
proof -
  have "length (probeCoordinates c pth ms goal ws tree) \<le> length (searchSpace c pth goal)"
    unfolding probeCoordinates_def by (rule length_filter_le)
  also have "\<dots> = 4"
    by (simp add: searchSpace_def searchLocations_def directionString_def)
  finally show ?thesis .
qed

lemma probeCoordinates_fresh:
  assumes "n \<in> set (probeCoordinates c pth ms goal ws tree)"
  shows "\<not> checkOutOfBounds (coordinates n) ms" and "coordinates n \<notin> coordinates ` set tree"
  using assms by (auto simp: probeCoordinates_def checkBacktrack_iff)

lemma unexplored_append_le: "unexplored ms (tree @ cs) \<le> unexplored ms tree"
  unfolding unexplored_def
  by (rule card_mono) (auto intro: finite_inside)

lemma unexplored_append_less:
  assumes "n \<in> set cs" and "\<not> checkOutOfBounds (coordinates n) ms"
    and "coordinates n \<notin> coordinates ` set tree"
  shows "unexplored ms (tree @ cs) < unexplored ms tree"
  unfolding unexplored_def
proof (rule psubset_card_mono)
  show "finite ({c. \<not> checkOutOfBounds c ms} - coordinates ` set tree)"
    by (simp add: finite_inside)
  have "coordinates n \<in> {c. \<not> checkOutOfBounds c ms} - coordinates ` set tree"
    using assms by simp
  moreover have "coordinates n \<notin> {c. \<not> checkOutOfBounds c ms} - coordinates ` set (tree @ cs)"
    using assms(1) by simp
  ultimately show "{c. \<not> checkOutOfBounds c ms} - coordinates ` set (tree @ cs)
        \<subset> {c. \<not> checkOutOfBounds c ms} - coordinates ` set tree"
    by auto
qed

text \<open>The measure of a loop state, and its decrease under one expansion.\<close>

definition budget :: "maze_size \<Rightarrow> node list \<Rightarrow> node list \<Rightarrow> nat" where
  "budget ms frontier tree = 5 * unexplored ms tree + length frontier"

lemma budget_decreases:
  assumes "frontier \<noteq> []"
    and "set cs = set (probeCoordinates c pth ms goal ws tree)"
    and "length cs = length (probeCoordinates c pth ms goal ws tree)"
    and "length frontier' + 1 \<le> length frontier + length cs"
  shows "budget ms frontier' (tree @ cs) < budget ms frontier tree"
proof (cases "cs = []")
  case True
  with assms(1,4) show ?thesis
    by (simp add: budget_def)
next
  case False
  then obtain n where n: "n \<in> set cs"
    by (cases cs) auto
  with assms(2) have "n \<in> set (probeCoordinates c pth ms goal ws tree)"
    by simp
  then have "unexplored ms (tree @ cs) < unexplored ms tree"
    using n by (intro unexplored_append_less [of n]) (auto dest: probeCoordinates_fresh)
  moreover have "length cs \<le> 4"
    using assms(3) length_probeCoordinates [of c pth ms goal ws tree] by simp
  ultimately show ?thesis
    using assms(4) by (simp add: budget_def)
qed

text \<open>What one iteration of a single-frontier strategy does to the loop state.\<close>

definition expansion ::
  "problem \<Rightarrow> coordinate \<Rightarrow> node list \<Rightarrow> node list \<Rightarrow> node list \<Rightarrow> node list \<Rightarrow> bool" where
  "expansion p goal frontier tree frontier' tree' \<longleftrightarrow>
     (\<exists>s cs. s \<in> set frontier \<and> \<not> isGoal s \<and>
        set cs = set (probeCoordinates (coordinates s) (previousCoordinates s @ [s])
                        (mazeSize p) goal (walls p) tree) \<and>
        length cs = length (probeCoordinates (coordinates s) (previousCoordinates s @ [s])
                        (mazeSize p) goal (walls p) tree) \<and>
        tree' = tree @ cs \<and>
        set frontier' \<subseteq> set frontier \<union> set cs \<and>
        length frontier' + 1 \<le> length frontier + length cs)"

definition arrival :: "node list \<Rightarrow> node list \<Rightarrow> solution \<Rightarrow> bool" where
  "arrival frontier tree sol \<longleftrightarrow>
     (\<exists>s. s \<in> set frontier \<and> isGoal s \<and>
        sol = found (previousCoordinates s @ [s]) tree)"

lemma expansion_budget:
  assumes "expansion p goal frontier tree frontier' tree'" and "frontier \<noteq> []"
  shows "budget (mazeSize p) frontier' tree' < budget (mazeSize p) frontier tree"
  using assms unfolding expansion_def
  by (auto intro: budget_decreases)

lemma set_butlast_subset: "set (butlast xs) \<subseteq> set xs"
  by (auto dest: in_set_butlastD)

lemma set_tl_subset: "set (tl xs) \<subseteq> set xs"
  by (cases xs) auto

lemma dfs_body_Inr:
  assumes "dfs_body p goal frontier tree = Inr (frontier', tree')" and "frontier \<noteq> []"
  shows "expansion p goal frontier tree frontier' tree'"
  unfolding expansion_def
  apply (rule exI [of _ "last frontier"])
  apply (rule exI [of _ "rev (probeCoordinates (coordinates (last frontier))
           (previousCoordinates (last frontier) @ [last frontier]) (mazeSize p) goal (walls p) tree)"])
  using assms set_butlast_subset [of frontier]
  by (auto simp: dfs_body_def Let_def split: if_splits)

lemma bfs_body_Inr:
  assumes "bfs_body p goal frontier tree = Inr (frontier', tree')" and "frontier \<noteq> []"
  shows "expansion p goal frontier tree frontier' tree'"
  unfolding expansion_def
  apply (rule exI [of _ "hd frontier"])
  apply (rule exI [of _ "probeCoordinates (coordinates (hd frontier))
           (previousCoordinates (hd frontier) @ [hd frontier]) (mazeSize p) goal (walls p) tree"])
  using assms set_tl_subset [of frontier]
  by (auto simp: bfs_body_def Let_def split: if_splits)

lemma gbfs_body_Inr:
  assumes "gbfs_body p goal frontier tree = Inr (frontier', tree')" and "frontier \<noteq> []"
  shows "expansion p goal frontier tree frontier' tree'"
  unfolding expansion_def
  apply (rule exI [of _ "hd frontier"])
  apply (rule exI [of _ "probeCoordinates (coordinates (hd frontier))
           (previousCoordinates (hd frontier) @ [hd frontier]) (mazeSize p) goal (walls p) tree"])
  using assms set_tl_subset [of frontier]
  by (auto simp: gbfs_body_def Let_def split: if_splits)

lemma aStar_body_Inr:
  assumes "aStar_body p goal frontier tree = Inr (frontier', tree')" and "frontier \<noteq> []"
  shows "expansion p goal frontier tree frontier' tree'"
  unfolding expansion_def
  apply (rule exI [of _ "hd frontier"])
  apply (rule exI [of _ "probeCoordinates (coordinates (hd frontier))
           (previousCoordinates (hd frontier) @ [hd frontier]) (mazeSize p) goal (walls p) tree"])
  using assms set_tl_subset [of frontier]
  by (auto simp: aStar_body_def Let_def split: if_splits)

lemma customOne_body_Inr:
  assumes "customOne_body p goal frontier tree = Inr (frontier', tree')" and "frontier \<noteq> []"
  shows "expansion p goal frontier tree frontier' tree'"
  unfolding expansion_def
  apply (rule exI [of _ "last frontier"])
  apply (rule exI [of _ "rev (probeCoordinates (coordinates (last frontier))
           (previousCoordinates (last frontier) @ [last frontier]) (mazeSize p) goal (walls p) tree)"])
  using assms set_butlast_subset [of frontier]
  by (auto simp: customOne_body_def Let_def split: if_splits)

function dfs_loop :: "problem \<Rightarrow> coordinate \<Rightarrow> node list \<Rightarrow> node list \<Rightarrow> solution" where
  "dfs_loop p goal frontier tree =
     (if frontier = [] then failed tree
      else case dfs_body p goal frontier tree of
             Inl sol \<Rightarrow> sol
           | Inr (frontier', tree') \<Rightarrow> dfs_loop p goal frontier' tree')"
  by pat_completeness auto
termination
  by (relation "measure (\<lambda>(p, goal, frontier, tree). budget (mazeSize p) frontier tree)")
     (auto dest!: dfs_body_Inr intro: expansion_budget)

declare dfs_loop.simps [simp del]

function bfs_loop :: "problem \<Rightarrow> coordinate \<Rightarrow> node list \<Rightarrow> node list \<Rightarrow> solution" where
  "bfs_loop p goal frontier tree =
     (if frontier = [] then failed tree
      else case bfs_body p goal frontier tree of
             Inl sol \<Rightarrow> sol
           | Inr (frontier', tree') \<Rightarrow> bfs_loop p goal frontier' tree')"
  by pat_completeness auto
termination
  by (relation "measure (\<lambda>(p, goal, frontier, tree). budget (mazeSize p) frontier tree)")
     (auto dest!: bfs_body_Inr intro: expansion_budget)

declare bfs_loop.simps [simp del]

function gbfs_loop :: "problem \<Rightarrow> coordinate \<Rightarrow> node list \<Rightarrow> node list \<Rightarrow> solution" where
  "gbfs_loop p goal frontier tree =
     (if frontier = [] then failed tree
      else case gbfs_body p goal frontier tree of
             Inl sol \<Rightarrow> sol
           | Inr (frontier', tree') \<Rightarrow> gbfs_loop p goal frontier' tree')"
  by pat_completeness auto
termination
  by (relation "measure (\<lambda>(p, goal, frontier, tree). budget (mazeSize p) frontier tree)")
     (auto dest!: gbfs_body_Inr intro: expansion_budget)

declare gbfs_loop.simps [simp del]

function aStar_loop :: "problem \<Rightarrow> coordinate \<Rightarrow> node list \<Rightarrow> node list \<Rightarrow> solution" where
  "aStar_loop p goal frontier tree =
     (if frontier = [] then failed tree
      else case aStar_body p goal frontier tree of
             Inl sol \<Rightarrow> sol
           | Inr (frontier', tree') \<Rightarrow> aStar_loop p goal frontier' tree')"
  by pat_completeness auto
termination
  by (relation "measure (\<lambda>(p, goal, frontier, tree). budget (mazeSize p) frontier tree)")
     (auto dest!: aStar_body_Inr intro: expansion_budget)

declare aStar_loop.simps [simp del]

function customOne_loop :: "problem \<Rightarrow> coordinate \<Rightarrow> node list \<Rightarrow> node list \<Rightarrow> solution" where
  "customOne_loop p goal frontier tree =
     (if frontier = [] then failed tree
      else case customOne_body p goal frontier tree of
             Inl sol \<Rightarrow> sol
           | Inr (frontier', tree') \<Rightarrow> customOne_loop p goal frontier' tree')"
  by pat_completeness auto
termination
  by (relation "measure (\<lambda>(p, goal, frontier, tree). budget (mazeSize p) frontier tree)")
     (auto dest!: customOne_body_Inr intro: expansion_budget)

declare customOne_loop.simps [simp del]

definition dfs :: "problem \<Rightarrow> coordinate \<Rightarrow> node \<Rightarrow> solution" where
  "dfs p goal initialSearchCoordinate =
     dfs_loop p goal [initialSearchCoordinate] [initialSearchCoordinate]"

definition bfs :: "problem \<Rightarrow> coordinate \<Rightarrow> node \<Rightarrow> solution" where
  "bfs p goal initialSearchCoordinate =
     bfs_loop p goal [initialSearchCoordinate] [initialSearchCoordinate]"

definition gbfs :: "problem \<Rightarrow> coordinate \<Rightarrow> node \<Rightarrow> solution" where
  "gbfs p goal initialSearchCoordinate =
     gbfs_loop p goal [initialSearchCoordinate] [initialSearchCoordinate]"

definition aStar :: "problem \<Rightarrow> coordinate \<Rightarrow> node \<Rightarrow> solution" where
  "aStar p goal initialSearchCoordinate =
     aStar_loop p goal [initialSearchCoordinate] [initialSearchCoordinate]"

definition customOne :: "problem \<Rightarrow> coordinate \<Rightarrow> node \<Rightarrow> solution" where
  "customOne p goal initialSearchCoordinate =
     customOne_loop p goal [initialSearchCoordinate] [initialSearchCoordinate]"

subsection \<open>Bidirectional A*\<close>

text \<open>
  Reading a property of \<open>undefined\<close> and calling a value that is not a function throw a
  \<open>TypeError\<close>; the model returns it on the left of a sum.
\<close>

datatype js_error = TypeError

definition sameCell :: "node \<Rightarrow> node \<Rightarrow> bool" where
  "sameCell a b \<longleftrightarrow>
     x_of (coordinates a) = x_of (coordinates b) \<and> y_of (coordinates a) = y_of (coordinates b)"

definition intersectingCoordinate ::
  "node \<Rightarrow> node \<Rightarrow> node list \<Rightarrow> node list \<Rightarrow> node option" where
  "intersectingCoordinate searchLocation reverseSearchLocation tree reverseTree =
     (if list_ex (\<lambda>rsl. sameCell rsl searchLocation) reverseTree then Some searchLocation
      else if list_ex (\<lambda>sl. sameCell sl reverseSearchLocation) tree
        then Some reverseSearchLocation
      else None)"

definition currentDirection :: "coordinate option \<Rightarrow> coordinate \<Rightarrow> string" where
  "currentDirection previousCoordinate c =
     (case previousCoordinate of
        None \<Rightarrow> ''start; ''
      | Some pc \<Rightarrow>
          if y_of pc > y_of c then ''up; ''
          else if x_of pc > x_of c then ''left; ''
          else if y_of pc < y_of c then ''down; ''
          else if x_of pc < x_of c then ''right; ''
          else ''broken; '')"

definition finalPath :: "node list \<Rightarrow> path_entry list" where
  "finalPath joinedPath =
     map (\<lambda>i. DirectionOnly
                 (currentDirection
                    (if i > 0 then Some (coordinates (joinedPath ! (i - 1))) else None)
                    (coordinates (joinedPath ! i))))
         [0..<length joinedPath]"

text \<open>
  \<open>intersectingReversePath.reverse()\<close> reverses, in place, the ancestor array of the
  meeting node of the backward tree.  The nodes generated in one expansion share that
  array, and every node object is shared by the ancestor arrays of its descendants, so
  the nodes of the returned backward tree show the reversed array wherever a node with
  that ancestor array occurs.  \<open>reverseAncestors A\<close> is this change on a node value.
\<close>

fun reverseAncestors :: "node list \<Rightarrow> node \<Rightarrow> node" where
  "reverseAncestors A (Node d c g prev h k) =
     Node d c g
       (if prev = A then rev (map (reverseAncestors A) prev)
        else map (reverseAncestors A) prev) h k"

definition customTwo_body ::
  "problem \<Rightarrow> coordinate \<Rightarrow> node list \<Rightarrow> node list \<Rightarrow> node list \<Rightarrow> node list \<Rightarrow>
     (js_error + solution) + (node list \<times> node list \<times> node list \<times> node list)" where
  "customTwo_body p goal frontier tree reverseFrontier reverseTree =
     (let searchLocation = hd frontier;
          frontier1 = tl frontier;
          pth = previousCoordinates searchLocation @ [searchLocation];
          reverseSearchLocation = hd reverseFrontier;
          reverseFrontier1 = tl reverseFrontier;
          reversePath = previousCoordinates reverseSearchLocation @ [reverseSearchLocation]
      in case intersectingCoordinate searchLocation reverseSearchLocation tree reverseTree of
           Some ic \<Rightarrow>
             (case (find (\<lambda>n. sameCell n ic) tree, find (\<lambda>n. sameCell n ic) reverseTree) of
                (Some fwd, Some bwd) \<Rightarrow>
                  let intersectingForwardPath = previousCoordinates fwd;
                      intersectingReversePath = previousCoordinates bwd;
                      joinedPath = intersectingForwardPath @ [ic] @ rev intersectingReversePath
                  in Inl (Inr \<lparr>status = Found,
                               path = tl (finalPath joinedPath),
                               searchTree =
                                 tree @ map (reverseAncestors intersectingReversePath) reverseTree\<rparr>)
              | _ \<Rightarrow> Inl (Inl TypeError))
         | None \<Rightarrow>
             let candidates = probeCoordinates (coordinates searchLocation) pth
                                (mazeSize p) goal (walls p) tree;
                 frontier2 = sort_key (\<lambda>n. fromStartingNode (distanceToGoal n))
                               (frontier1 @ candidates);
                 reverseCandidates = probeCoordinates (coordinates reverseSearchLocation)
                                       reversePath (mazeSize p) (agentLocation p) (walls p)
                                       reverseTree;
                 reverseFrontier2 = sort_key (\<lambda>n. fromStartingNode (distanceToGoal n))
                                      (reverseFrontier1 @ reverseCandidates)
             in Inr (frontier2, tree @ candidates,
                     reverseFrontier2, reverseTree @ reverseCandidates))"

lemma customTwo_body_budget:
  assumes "customTwo_body p goal frontier tree reverseFrontier reverseTree
             = Inr (frontier', tree', reverseFrontier', reverseTree')"
    and "frontier \<noteq> []" and "reverseFrontier \<noteq> []"
  shows "budget (mazeSize p) frontier' tree' + budget (mazeSize p) reverseFrontier' reverseTree'
           < budget (mazeSize p) frontier tree + budget (mazeSize p) reverseFrontier reverseTree"
proof -
  let ?cs = "probeCoordinates (coordinates (hd frontier))
               (previousCoordinates (hd frontier) @ [hd frontier]) (mazeSize p) goal (walls p) tree"
  let ?rcs = "probeCoordinates (coordinates (hd reverseFrontier))
               (previousCoordinates (hd reverseFrontier) @ [hd reverseFrontier])
               (mazeSize p) (agentLocation p) (walls p) reverseTree"
  from assms(1) have eqs:
    "frontier' = sort_key (\<lambda>n. fromStartingNode (distanceToGoal n)) (tl frontier @ ?cs)"
    "tree' = tree @ ?cs"
    "reverseFrontier' = sort_key (\<lambda>n. fromStartingNode (distanceToGoal n)) (tl reverseFrontier @ ?rcs)"
    "reverseTree' = reverseTree @ ?rcs"
    by (auto simp: customTwo_body_def Let_def split: option.splits prod.splits)
  have "budget (mazeSize p) frontier' tree' < budget (mazeSize p) frontier tree"
    unfolding eqs using assms(2)
    by (intro budget_decreases [of _ _ "coordinates (hd frontier)"
          "previousCoordinates (hd frontier) @ [hd frontier]" _ goal "walls p"]) auto
  moreover have "budget (mazeSize p) reverseFrontier' reverseTree'
      < budget (mazeSize p) reverseFrontier reverseTree"
    unfolding eqs using assms(3)
    by (intro budget_decreases [of _ _ "coordinates (hd reverseFrontier)"
          "previousCoordinates (hd reverseFrontier) @ [hd reverseFrontier]" _
          "agentLocation p" "walls p"]) auto
  ultimately show ?thesis by simp
qed

function customTwo_loop ::
  "problem \<Rightarrow> coordinate \<Rightarrow> node list \<Rightarrow> node list \<Rightarrow> node list \<Rightarrow> node list \<Rightarrow>
     js_error + solution" where
  "customTwo_loop p goal frontier tree reverseFrontier reverseTree =
     (if frontier = [] \<or> reverseFrontier = [] then Inr (failed (tree @ reverseTree))
      else case customTwo_body p goal frontier tree reverseFrontier reverseTree of
             Inl res \<Rightarrow> res
           | Inr (frontier', tree', reverseFrontier', reverseTree') \<Rightarrow>
               customTwo_loop p goal frontier' tree' reverseFrontier' reverseTree')"
  by pat_completeness auto
termination
  by (relation "measure (\<lambda>(p, goal, frontier, tree, reverseFrontier, reverseTree).
        budget (mazeSize p) frontier tree + budget (mazeSize p) reverseFrontier reverseTree)")
     (auto dest!: customTwo_body_budget)

declare customTwo_loop.simps [simp del]

definition customTwo :: "problem \<Rightarrow> coordinate \<Rightarrow> node \<Rightarrow> js_error + solution" where
  "customTwo p goal initialSearchCoordinate =
     (let reverseInitialSearchCoordinate = getInitialNode goal (agentLocation p)
      in customTwo_loop p goal [initialSearchCoordinate] [initialSearchCoordinate]
           [reverseInitialSearchCoordinate] [reverseInitialSearchCoordinate])"

section \<open>Dispatch and the multi-goal orchestrator\<close>

text \<open>
  \<open>algorithmMap\<close> is an object literal with six own properties, and \<open>algorithmMap[method]\<close>
  is an ordinary property read: a name that is no own property is looked up on
  \<open>Object.prototype\<close>, and only a name absent from there as well reads as \<open>undefined\<close>.
  \<open>objectPrototype\<close> lists the property names of the standard \<open>Object.prototype\<close>.
\<close>

type_synonym algorithm = "problem \<Rightarrow> coordinate \<Rightarrow> node \<Rightarrow> js_error + solution"

datatype property = Own algorithm | Inherited string | Undefined

definition objectPrototype :: "string list" where
  "objectPrototype =
     [''constructor'', ''__defineGetter__'', ''__defineSetter__'', ''hasOwnProperty'',
      ''__lookupGetter__'', ''__lookupSetter__'', ''isPrototypeOf'', ''propertyIsEnumerable'',
      ''toString'', ''valueOf'', ''__proto__'', ''toLocaleString'']"

definition strategyNames :: "string list" where
  "strategyNames = [''DFS'', ''BFS'', ''GBFS'', ''AS'', ''CUS1'', ''CUS2'']"

definition selectAlgorithm :: "string \<Rightarrow> property" where
  "selectAlgorithm method =
     (if method = ''DFS'' then Own (\<lambda>p goal init. Inr (dfs p goal init))
      else if method = ''BFS'' then Own (\<lambda>p goal init. Inr (bfs p goal init))
      else if method = ''GBFS'' then Own (\<lambda>p goal init. Inr (gbfs p goal init))
      else if method = ''AS'' then Own (\<lambda>p goal init. Inr (aStar p goal init))
      else if method = ''CUS1'' then Own (\<lambda>p goal init. Inr (customOne p goal init))
      else if method = ''CUS2'' then Own customTwo
      else if method \<in> set objectPrototype then Inherited method
      else Undefined)"

text \<open>
  What \<open>findSolution\<close> can return: a solution, or, for an inherited name, whatever the
  member of \<open>Object.prototype\<close> returns when it is called as
  \<open>algorithm(problem, goal, initialSearchCoordinate)\<close> with no receiver.  \<open>Object(problem)\<close>
  returns the problem, \<open>toString\<close> returns the tag of \<open>undefined\<close>; \<open>__proto__\<close> reads as
  an object that is no function, and the other members convert their missing receiver to
  an object; all of these throw a \<open>TypeError\<close>.
\<close>

datatype js_value = SolutionValue solution | ProblemValue problem | StringValue string

definition callInherited :: "string \<Rightarrow> problem \<Rightarrow> js_error + js_value" where
  "callInherited name p =
     (if name = ''constructor'' then Inr (ProblemValue p)
      else if name = ''toString'' then Inr (StringValue ''[object Undefined]'')
      else Inl TypeError)"

definition findSolution ::
  "problem \<Rightarrow> coordinate \<Rightarrow> coordinate \<Rightarrow> string \<Rightarrow> js_error + js_value" where
  "findSolution p startNode goal searchMethod =
     (let initialSearchCoordinate = getInitialNode startNode goal
      in case selectAlgorithm searchMethod of
           Own algorithm \<Rightarrow>
             (case algorithm p goal initialSearchCoordinate of
                Inl e \<Rightarrow> Inl e
              | Inr sol \<Rightarrow> Inr (SolutionValue sol))
         | Inherited name \<Rightarrow> callInherited name p
         | Undefined \<Rightarrow> Inl TypeError)"

text \<open>
  In \<open>searchAllGoals\<close> the goals are cloned objects compared by identity
  (\<open>goal !== solution.goal\<close>); the model pairs every goal with its index in the input.
  The legs of a round are sorted by descending path length (stable) and the last one is
  popped.  A leg whose value is not a solution has no \<open>path\<close> and no \<open>searchTree\<close>: the
  comparator or, at the latest, the final \<open>reduce\<close> throws a \<open>TypeError\<close> on it, and
  nothing of the run is observable before that, so the model raises the error when the
  leg is collected.
\<close>

type_synonym goal_ref = "nat \<times> coordinate"

fun collectLegs ::
  "(goal_ref \<times> (js_error + js_value)) list \<Rightarrow> js_error + (goal_ref \<times> solution) list" where
  "collectLegs [] = Inr []"
| "collectLegs ((g, Inr (SolutionValue sol)) # rest) =
     (case collectLegs rest of Inl e \<Rightarrow> Inl e | Inr ls \<Rightarrow> Inr ((g, sol) # ls))"
| "collectLegs ((g, _) # rest) = Inl TypeError"

definition legs ::
  "problem \<Rightarrow> string \<Rightarrow> coordinate \<Rightarrow> goal_ref list \<Rightarrow> js_error + (goal_ref \<times> solution) list" where
  "legs p searchMethod startNode goalList =
     collectLegs (map (\<lambda>g. (g, findSolution p startNode (snd g) searchMethod)) goalList)"

lemma collectLegs_fst:
  "collectLegs xs = Inr ls \<Longrightarrow> map fst ls = map fst xs"
proof (induction xs arbitrary: ls rule: collectLegs.induct)
  case 1
  then show ?case by simp
next
  case (2 g sol rest)
  then show ?case by (auto split: sum.splits)
qed simp_all

lemma legs_fst: "legs p m start goalList = Inr ls \<Longrightarrow> map fst ls = goalList"
  by (auto simp: legs_def dest!: collectLegs_fst simp: comp_def)

function searchAllGoals_loop ::
  "problem \<Rightarrow> string \<Rightarrow> goal_ref list \<Rightarrow> coordinate \<Rightarrow> solution list \<Rightarrow>
     js_error + solution list" where
  "searchAllGoals_loop p searchMethod goalList startNode solutionPath =
     (if goalList = [] then Inr solutionPath
      else case legs p searchMethod startNode goalList of
             Inl e \<Rightarrow> Inl e
           | Inr ls \<Rightarrow>
               let solutions = sort_key (\<lambda>l. - int (length (path (snd l)))) ls;
                   chosen = last solutions
               in searchAllGoals_loop p searchMethod
                    (filter (\<lambda>g. fst g \<noteq> fst (fst chosen)) goalList)
                    (snd (fst chosen))
                    (solutionPath @ [snd chosen]))"
  by pat_completeness auto
termination
proof (relation "measure (\<lambda>(p, m, goalList, startNode, solutionPath). length goalList)")
  show "wf (measure (\<lambda>(p, m, goalList, startNode, solutionPath). length goalList))"
    by simp
next
  fix p :: problem and searchMethod goalList startNode and solutionPath :: "solution list"
    and ls solutions and chosen :: "goal_ref \<times> solution"
  assume ne: "goalList \<noteq> []" and l: "legs p searchMethod startNode goalList = Inr ls"
    and s: "solutions = sort_key (\<lambda>l. - int (length (path (snd l)))) ls"
    and c: "chosen = last solutions"
  from legs_fst [OF l] ne have "ls \<noteq> []" by auto
  then have "solutions \<noteq> []"
    using s by (metis length_0_conv length_sort)
  then have "chosen \<in> set ls"
    using c s by (metis last_in_set set_sort)
  then have "fst chosen \<in> set goalList"
    using legs_fst [OF l] by force
  then have "length (filter (\<lambda>g. fst g \<noteq> fst (fst chosen)) goalList) < length goalList"
    by (intro length_filter_less [of "fst chosen"]) auto
  then show "((p, searchMethod, filter (\<lambda>g. fst g \<noteq> fst (fst chosen)) goalList,
                snd (fst chosen), solutionPath @ [snd chosen]),
               (p, searchMethod, goalList, startNode, solutionPath))
              \<in> measure (\<lambda>(p, m, goalList, startNode, solutionPath). length goalList)"
    by simp
qed

declare searchAllGoals_loop.simps [simp del]

definition combine :: "solution \<Rightarrow> solution \<Rightarrow> solution" where
  "combine combinedSolution sol =
     \<lparr>status = Found,
      path = path combinedSolution @ path sol,
      searchTree = searchTree combinedSolution @ searchTree sol\<rparr>"

definition searchAllGoals :: "problem \<Rightarrow> string \<Rightarrow> js_error + solution" where
  "searchAllGoals p searchMethod =
     (case searchAllGoals_loop p searchMethod (zip [0..<length (goals p)] (goals p))
             (agentLocation p) [] of
        Inl e \<Rightarrow> Inl e
      | Inr solutionPath \<Rightarrow>
          Inr (foldl combine \<lparr>status = Fail, path = [], searchTree = []\<rparr> solutionPath))"

text \<open>
  \<open>problem.goals[0]\<close> of an empty goal list is \<open>undefined\<close>, whose \<open>y\<close> the initial node
  then reads.
\<close>

definition searchMaze :: "problem \<Rightarrow> string \<Rightarrow> bool \<Rightarrow> js_error + js_value" where
  "searchMaze p searchMethod allGoals =
     (if allGoals then
        (case searchAllGoals p searchMethod of
           Inl e \<Rightarrow> Inl e
         | Inr sol \<Rightarrow> Inr (SolutionValue sol))
      else
        (case goals p of
           [] \<Rightarrow> Inl TypeError
         | g # _ \<Rightarrow> findSolution p (agentLocation p) g searchMethod))"

section \<open>Properties of the expansion engine\<close>

text \<open>
  The nodes the engine builds in a search towards \<open>goal\<close>: the root, and every candidate
  obtained by expanding a node that was built before, along that node's own path.
\<close>

inductive engineBuilt :: "coordinate \<Rightarrow> node \<Rightarrow> bool" for goal :: coordinate where
  root: "engineBuilt goal (getInitialNode agent goal)"
| candidate:
    "engineBuilt goal parent \<Longrightarrow>
     n \<in> set (probeCoordinates (coordinates parent) (previousCoordinates parent @ [parent])
                ms goal ws tree) \<Longrightarrow>
     engineBuilt goal n"

lemma searchSpace_fields:
  assumes "n \<in> set (searchSpace c pth goal)"
  shows "previousCoordinates n = pth"
    and "distanceToGoal n = calculateManhattan (coordinates n) pth goal"
    and "isGoal n = checkGoal (coordinates n) goal"
    and "depth n = (if pth = [] then 0 else depth (last pth)) + 1"
    and "coordinates n \<in> set (searchLocations c)"
  using assms by (auto simp: searchSpace_def dest!: set_zip_leftD)

lemma probeCoordinates_subset:
  "set (probeCoordinates c pth ms goal ws tree) \<subseteq> set (searchSpace c pth goal)"
  by (auto simp: probeCoordinates_def)

lemma probeCoordinates_fields:
  assumes "n \<in> set (probeCoordinates c pth ms goal ws tree)"
  shows "previousCoordinates n = pth"
    and "distanceToGoal n = calculateManhattan (coordinates n) pth goal"
    and "isGoal n = checkGoal (coordinates n) goal"
    and "depth n = (if pth = [] then 0 else depth (last pth)) + 1"
    and "coordinates n \<in> set (searchLocations c)"
proof -
  from assms have m: "n \<in> set (searchSpace c pth goal)"
    using probeCoordinates_subset [of c pth ms goal ws tree] by blast
  show "previousCoordinates n = pth"
    by (rule searchSpace_fields(1) [OF m])
  show "distanceToGoal n = calculateManhattan (coordinates n) pth goal"
    by (rule searchSpace_fields(2) [OF m])
  show "isGoal n = checkGoal (coordinates n) goal"
    by (rule searchSpace_fields(3) [OF m])
  show "depth n = (if pth = [] then 0 else depth (last pth)) + 1"
    by (rule searchSpace_fields(4) [OF m])
  show "coordinates n \<in> set (searchLocations c)"
    by (rule searchSpace_fields(5) [OF m])
qed

lemma calculateManhattan_sel:
  "fromCurrentNode (calculateManhattan c pth goal) = manhattan c goal"
  "fromStartingNode (calculateManhattan c pth goal)
     = (if pth = [] then 0 else fromStartingNode (distanceToGoal (last pth))) + manhattan c goal"
  "nodesTravelled (calculateManhattan c pth goal) = length pth"
  by (simp_all add: calculateManhattan_def Let_def)

lemma engineBuilt_cumulative:
  assumes "engineBuilt goal n"
  shows "fromStartingNode (distanceToGoal n)
           = (\<Sum>a\<leftarrow>previousCoordinates n. manhattan (coordinates a) goal)
             + manhattan (coordinates n) goal"
  using assms
proof (induction rule: engineBuilt.induct)
  case (root agent)
  show ?case
    by (simp add: getInitialNode_def calculateManhattan_sel)
next
  case (candidate parent n ms ws tree)
  from probeCoordinates_fields(1,2) [OF candidate.hyps(2)] candidate.IH
  show ?case
    by (simp add: calculateManhattan_sel)
qed

text \<open>
  Claim C1.  No candidate returned by \<open>probeCoordinates\<close> lies inside a wall rectangle
  (neither by the code's own wall test nor by the intervals
  \<open>[x, x + columns)\<close> and \<open>[y, y + rows)\<close> of a wall), none lies outside the maze
  bounds \<open>0 \<le> x < columns\<close>, \<open>0 \<le> y < rows\<close>, and none has a coordinate that occurs in
  the supplied search tree.
\<close>

theorem probeCoordinates_candidates_valid:
  assumes "n \<in> set (probeCoordinates currentLocation pth ms goal ws tree)"
  shows "\<not> checkWall (coordinates n) ws \<and>
         (\<forall>w \<in> set ws. \<not> (wall_x w \<le> x_of (coordinates n) \<and>
                            x_of (coordinates n) < wall_x w + wall_columns w \<and>
                            wall_y w \<le> y_of (coordinates n) \<and>
                            y_of (coordinates n) < wall_y w + wall_rows w)) \<and>
         0 \<le> x_of (coordinates n) \<and> x_of (coordinates n) < columns ms \<and>
         0 \<le> y_of (coordinates n) \<and> y_of (coordinates n) < rows ms \<and>
         (\<forall>m \<in> set tree. \<not> (x_of (coordinates m) = x_of (coordinates n) \<and>
                              y_of (coordinates m) = y_of (coordinates n)))"
proof -
  from assms have w: "\<not> checkWall (coordinates n) ws"
    and b: "\<not> checkOutOfBounds (coordinates n) ms"
    and t: "\<not> checkBacktrack (coordinates n) tree"
    by (auto simp: probeCoordinates_def)
  from w have "\<forall>w \<in> set ws. \<not> (wall_x w \<le> x_of (coordinates n) \<and>
                            x_of (coordinates n) < wall_x w + wall_columns w \<and>
                            wall_y w \<le> y_of (coordinates n) \<and>
                            y_of (coordinates n) < wall_y w + wall_rows w)"
    by (auto simp: checkWall_def list_ex_iff inRange_def)
  moreover from b have "0 \<le> x_of (coordinates n) \<and> x_of (coordinates n) < columns ms \<and>
         0 \<le> y_of (coordinates n) \<and> y_of (coordinates n) < rows ms"
    by (auto simp: checkOutOfBounds_def)
  moreover from t have "\<forall>m \<in> set tree. \<not> (x_of (coordinates m) = x_of (coordinates n) \<and>
                              y_of (coordinates m) = y_of (coordinates n))"
    by (auto simp: checkBacktrack_def list_ex_iff)
  ultimately show ?thesis
    using w by blast
qed

text \<open>
  A run of the engine for C1: in a 3 by 3 maze with a one-cell wall at (1,0), expanding
  (1,1) with the cell (0,1) already in the tree leaves the candidates below and to the
  right; the one below, (1,2), is in no wall, inside the maze and not in the tree.
\<close>

theorem probeCoordinates_candidates_valid_witness:
  "(let ms = \<lparr>rows = 3, columns = 3\<rparr>;
        goal = \<lparr>x_of = 2, y_of = 2\<rparr>;
        ws = [\<lparr>wall_x = 1, wall_y = 0, wall_columns = 1, wall_rows = 1\<rparr>];
        tree = [getInitialNode \<lparr>x_of = 0, y_of = 1\<rparr> goal];
        n = hd (probeCoordinates \<lparr>x_of = 1, y_of = 1\<rparr> tree ms goal ws tree)
    in n \<in> set (probeCoordinates \<lparr>x_of = 1, y_of = 1\<rparr> tree ms goal ws tree) \<and>
       coordinates n = \<lparr>x_of = 1, y_of = 2\<rparr> \<and>
       \<not> checkWall (coordinates n) ws \<and>
       0 \<le> x_of (coordinates n) \<and> x_of (coordinates n) < columns ms \<and>
       0 \<le> y_of (coordinates n) \<and> y_of (coordinates n) < rows ms)"
proof -
  let ?ms = "\<lparr>rows = 3, columns = 3\<rparr>"
  let ?goal = "\<lparr>x_of = 2, y_of = 2\<rparr>"
  let ?ws = "[\<lparr>wall_x = 1, wall_y = 0, wall_columns = 1, wall_rows = 1\<rparr>]"
  let ?tree = "[getInitialNode \<lparr>x_of = 0, y_of = 1\<rparr> ?goal]"
  let ?cs = "probeCoordinates \<lparr>x_of = 1, y_of = 1\<rparr> ?tree ?ms ?goal ?ws ?tree"
  have cs: "map coordinates ?cs = [\<lparr>x_of = 1, y_of = 2\<rparr>, \<lparr>x_of = 2, y_of = 1\<rparr>]"
    by (simp add: probeCoordinates_def searchSpace_def searchLocations_def directionString_def
        checkWall_def checkOutOfBounds_def checkBacktrack_def inRange_def getInitialNode_def)
  then have ne: "?cs \<noteq> []" by auto
  then have mem: "hd ?cs \<in> set ?cs" by simp
  have c: "coordinates (hd ?cs) = \<lparr>x_of = 1, y_of = 2\<rparr>"
    using cs ne by (cases ?cs) auto
  from probeCoordinates_candidates_valid [OF mem] mem c show ?thesis
    by (simp add: Let_def)
qed

text \<open>
  Claim C3.  Every candidate that \<open>probeCoordinates\<close> builds over the ancestor path
  \<open>pth\<close> has \<open>fromStartingNode\<close> equal to the last ancestor's \<open>fromStartingNode\<close> (0 when
  the path is empty) plus its own Manhattan distance to the goal, \<open>fromCurrentNode\<close> equal
  to that Manhattan distance and \<open>nodesTravelled\<close> equal to the length of the ancestor
  path; the root built by \<open>getInitialNode\<close> has both distances equal to its Manhattan
  distance and no node travelled.  Hence, for every node built in a search,
  \<open>fromStartingNode\<close> is the sum of the ancestors' Manhattan distances to the goal plus the
  node's own, which is not the number of steps taken.
\<close>

theorem calculateManhattan_cumulative:
  "(n \<in> set (probeCoordinates currentLocation pth ms goal ws tree) \<longrightarrow>
      fromStartingNode (distanceToGoal n)
        = (if pth = [] then 0 else fromStartingNode (distanceToGoal (last pth)))
          + manhattan (coordinates n) goal \<and>
      fromCurrentNode (distanceToGoal n) = manhattan (coordinates n) goal \<and>
      nodesTravelled (distanceToGoal n) = length pth \<and>
      previousCoordinates n = pth) \<and>
   distanceToGoal (getInitialNode agent goal)
     = \<lparr>fromCurrentNode = manhattan agent goal,
        fromStartingNode = manhattan agent goal,
        nodesTravelled = 0\<rparr> \<and>
   (engineBuilt goal n \<longrightarrow>
      fromStartingNode (distanceToGoal n)
        = (\<Sum>a\<leftarrow>previousCoordinates n. manhattan (coordinates a) goal)
          + manhattan (coordinates n) goal)"
proof (intro conjI impI)
  assume n: "n \<in> set (probeCoordinates currentLocation pth ms goal ws tree)"
  note f = probeCoordinates_fields(1,2) [OF n]
  show "fromStartingNode (distanceToGoal n)
        = (if pth = [] then 0 else fromStartingNode (distanceToGoal (last pth)))
          + manhattan (coordinates n) goal"
    using f by (simp add: calculateManhattan_sel)
  show "fromCurrentNode (distanceToGoal n) = manhattan (coordinates n) goal"
    using f by (simp add: calculateManhattan_sel)
  show "nodesTravelled (distanceToGoal n) = length pth"
    using f by (simp add: calculateManhattan_sel)
  show "previousCoordinates n = pth"
    using f by simp
next
  show "distanceToGoal (getInitialNode agent goal)
     = \<lparr>fromCurrentNode = manhattan agent goal,
        fromStartingNode = manhattan agent goal,
        nodesTravelled = 0\<rparr>"
    by (simp add: getInitialNode_def calculateManhattan_def Let_def)
next
  assume "engineBuilt goal n"
  then show "fromStartingNode (distanceToGoal n)
        = (\<Sum>a\<leftarrow>previousCoordinates n. manhattan (coordinates a) goal)
          + manhattan (coordinates n) goal"
    by (rule engineBuilt_cumulative)
qed

text \<open>
  A run for C3: towards the goal (2,2) the root at (0,0) has distance 4; its right-hand
  candidate (1,0) has distance 3, one node travelled, and \<open>fromStartingNode\<close> 4 + 3 = 7,
  although it is one step away from the start.
\<close>

theorem calculateManhattan_cumulative_witness:
  "(let ms = \<lparr>rows = 3, columns = 3\<rparr>;
        goal = \<lparr>x_of = 2, y_of = 2\<rparr>;
        r = getInitialNode \<lparr>x_of = 0, y_of = 0\<rparr> goal;
        n = last (probeCoordinates (coordinates r) [r] ms goal [] [r])
    in n \<in> set (probeCoordinates (coordinates r) [r] ms goal [] [r]) \<and>
       engineBuilt goal n \<and>
       coordinates n = \<lparr>x_of = 1, y_of = 0\<rparr> \<and>
       fromCurrentNode (distanceToGoal n) = 3 \<and>
       fromStartingNode (distanceToGoal n) = 7 \<and>
       nodesTravelled (distanceToGoal n) = 1)"
proof -
  let ?ms = "\<lparr>rows = 3, columns = 3\<rparr>"
  let ?goal = "\<lparr>x_of = 2, y_of = 2\<rparr>"
  let ?r = "getInitialNode \<lparr>x_of = 0, y_of = 0\<rparr> ?goal"
  let ?cs = "probeCoordinates (coordinates ?r) [?r] ?ms ?goal [] [?r]"
  have cs: "map coordinates ?cs = [\<lparr>x_of = 0, y_of = 1\<rparr>, \<lparr>x_of = 1, y_of = 0\<rparr>]"
    by (simp add: probeCoordinates_def searchSpace_def searchLocations_def directionString_def
        checkWall_def checkOutOfBounds_def checkBacktrack_def inRange_def getInitialNode_def)
  then have ne: "?cs \<noteq> []" by auto
  then have mem: "last ?cs \<in> set ?cs" by simp
  have c: "coordinates (last ?cs) = \<lparr>x_of = 1, y_of = 0\<rparr>"
    using cs ne by (metis last_map last.simps list.distinct(1))
  have built: "engineBuilt ?goal (last ?cs)"
    using engineBuilt.candidate [OF engineBuilt.root, of "last ?cs" "\<lparr>x_of = 0, y_of = 0\<rparr>" ?goal ?ms "[]" "[?r]"]
      mem by (simp add: getInitialNode_def)
  have r: "fromStartingNode (distanceToGoal ?r) = 4"
    by (simp add: getInitialNode_def calculateManhattan_sel manhattan_def)
  have m: "manhattan \<lparr>x_of = 1, y_of = 0\<rparr> ?goal = 3"
    by (simp add: manhattan_def)
  from calculateManhattan_cumulative [of "last ?cs" "coordinates ?r" "[?r]" ?ms ?goal "[]" "[?r]"
      "\<lparr>x_of = 0, y_of = 0\<rparr>"]
    mem built c r m
  show ?thesis
    by (simp add: Let_def)
qed

section \<open>Reasoning about the loops\<close>

lemma dfs_body_Inl:
  assumes "dfs_body p goal frontier tree = Inl sol" and "frontier \<noteq> []"
  shows "arrival frontier tree sol"
  unfolding arrival_def
  apply (rule exI [of _ "last frontier"])
  using assms by (auto simp: dfs_body_def Let_def split: if_splits)

lemma bfs_body_Inl:
  assumes "bfs_body p goal frontier tree = Inl sol" and "frontier \<noteq> []"
  shows "arrival frontier tree sol"
  unfolding arrival_def
  apply (rule exI [of _ "hd frontier"])
  using assms by (auto simp: bfs_body_def Let_def split: if_splits)

lemma gbfs_body_Inl:
  assumes "gbfs_body p goal frontier tree = Inl sol" and "frontier \<noteq> []"
  shows "arrival frontier tree sol"
  unfolding arrival_def
  apply (rule exI [of _ "hd frontier"])
  using assms by (auto simp: gbfs_body_def Let_def split: if_splits)

lemma aStar_body_Inl:
  assumes "aStar_body p goal frontier tree = Inl sol" and "frontier \<noteq> []"
  shows "arrival frontier tree sol"
  unfolding arrival_def
  apply (rule exI [of _ "hd frontier"])
  using assms by (auto simp: aStar_body_def Let_def split: if_splits)

lemma customOne_body_Inl:
  assumes "customOne_body p goal frontier tree = Inl sol" and "frontier \<noteq> []"
  shows "arrival frontier tree sol"
  unfolding arrival_def
  apply (rule exI [of _ "last frontier"])
  using assms by (auto simp: customOne_body_def Let_def split: if_splits)

text \<open>
  The invariant rule of the five single-frontier loops: a property of the loop state that
  every expansion keeps gives a property of the returned solution.
\<close>

lemma dfs_loop_rule:
  assumes "I frontier tree"
    and "\<And>F T F' T'. I F T \<Longrightarrow> F \<noteq> [] \<Longrightarrow> expansion p goal F T F' T' \<Longrightarrow> I F' T'"
    and "\<And>T. I [] T \<Longrightarrow> Q (failed T)"
    and "\<And>F T sol. I F T \<Longrightarrow> arrival F T sol \<Longrightarrow> Q sol"
  shows "Q (dfs_loop p goal frontier tree)"
  using assms
proof (induction p goal frontier tree rule: dfs_loop.induct)
  case (1 p goal frontier tree)
  note inv = "1.prems"(1) and step = "1.prems"(2) and fin = "1.prems"(3) and arr = "1.prems"(4)
  show ?case
  proof (cases "frontier = []")
    case True
    with inv fin show ?thesis
      by (simp add: dfs_loop.simps [of p goal "[]" tree])
  next
    case False
    show ?thesis
    proof (cases "dfs_body p goal frontier tree")
      case (Inl sol)
      with False have "arrival frontier tree sol"
        by (simp add: dfs_body_Inl)
      with inv arr have "Q sol" by blast
      with Inl False show ?thesis
        by (simp add: dfs_loop.simps [of p goal frontier tree])
    next
      case (Inr st)
      obtain F' T' where st: "st = (F', T')" by (cases st)
      with Inr False have "expansion p goal frontier tree F' T'"
        by (simp add: dfs_body_Inr)
      with inv False step have "I F' T'" by blast
      then have "Q (dfs_loop p goal F' T')"
        using "1.IH" [OF False Inr st [symmetric]] step fin arr by blast
      with Inr st False show ?thesis
        by (simp add: dfs_loop.simps [of p goal frontier tree])
    qed
  qed
qed

lemma bfs_loop_rule:
  assumes "I frontier tree"
    and "\<And>F T F' T'. I F T \<Longrightarrow> F \<noteq> [] \<Longrightarrow> expansion p goal F T F' T' \<Longrightarrow> I F' T'"
    and "\<And>T. I [] T \<Longrightarrow> Q (failed T)"
    and "\<And>F T sol. I F T \<Longrightarrow> arrival F T sol \<Longrightarrow> Q sol"
  shows "Q (bfs_loop p goal frontier tree)"
  using assms
proof (induction p goal frontier tree rule: bfs_loop.induct)
  case (1 p goal frontier tree)
  note inv = "1.prems"(1) and step = "1.prems"(2) and fin = "1.prems"(3) and arr = "1.prems"(4)
  show ?case
  proof (cases "frontier = []")
    case True
    with inv fin show ?thesis
      by (simp add: bfs_loop.simps [of p goal "[]" tree])
  next
    case False
    show ?thesis
    proof (cases "bfs_body p goal frontier tree")
      case (Inl sol)
      with False have "arrival frontier tree sol"
        by (simp add: bfs_body_Inl)
      with inv arr have "Q sol" by blast
      with Inl False show ?thesis
        by (simp add: bfs_loop.simps [of p goal frontier tree])
    next
      case (Inr st)
      obtain F' T' where st: "st = (F', T')" by (cases st)
      with Inr False have "expansion p goal frontier tree F' T'"
        by (simp add: bfs_body_Inr)
      with inv False step have "I F' T'" by blast
      then have "Q (bfs_loop p goal F' T')"
        using "1.IH" [OF False Inr st [symmetric]] step fin arr by blast
      with Inr st False show ?thesis
        by (simp add: bfs_loop.simps [of p goal frontier tree])
    qed
  qed
qed

lemma gbfs_loop_rule:
  assumes "I frontier tree"
    and "\<And>F T F' T'. I F T \<Longrightarrow> F \<noteq> [] \<Longrightarrow> expansion p goal F T F' T' \<Longrightarrow> I F' T'"
    and "\<And>T. I [] T \<Longrightarrow> Q (failed T)"
    and "\<And>F T sol. I F T \<Longrightarrow> arrival F T sol \<Longrightarrow> Q sol"
  shows "Q (gbfs_loop p goal frontier tree)"
  using assms
proof (induction p goal frontier tree rule: gbfs_loop.induct)
  case (1 p goal frontier tree)
  note inv = "1.prems"(1) and step = "1.prems"(2) and fin = "1.prems"(3) and arr = "1.prems"(4)
  show ?case
  proof (cases "frontier = []")
    case True
    with inv fin show ?thesis
      by (simp add: gbfs_loop.simps [of p goal "[]" tree])
  next
    case False
    show ?thesis
    proof (cases "gbfs_body p goal frontier tree")
      case (Inl sol)
      with False have "arrival frontier tree sol"
        by (simp add: gbfs_body_Inl)
      with inv arr have "Q sol" by blast
      with Inl False show ?thesis
        by (simp add: gbfs_loop.simps [of p goal frontier tree])
    next
      case (Inr st)
      obtain F' T' where st: "st = (F', T')" by (cases st)
      with Inr False have "expansion p goal frontier tree F' T'"
        by (simp add: gbfs_body_Inr)
      with inv False step have "I F' T'" by blast
      then have "Q (gbfs_loop p goal F' T')"
        using "1.IH" [OF False Inr st [symmetric]] step fin arr by blast
      with Inr st False show ?thesis
        by (simp add: gbfs_loop.simps [of p goal frontier tree])
    qed
  qed
qed

lemma aStar_loop_rule:
  assumes "I frontier tree"
    and "\<And>F T F' T'. I F T \<Longrightarrow> F \<noteq> [] \<Longrightarrow> expansion p goal F T F' T' \<Longrightarrow> I F' T'"
    and "\<And>T. I [] T \<Longrightarrow> Q (failed T)"
    and "\<And>F T sol. I F T \<Longrightarrow> arrival F T sol \<Longrightarrow> Q sol"
  shows "Q (aStar_loop p goal frontier tree)"
  using assms
proof (induction p goal frontier tree rule: aStar_loop.induct)
  case (1 p goal frontier tree)
  note inv = "1.prems"(1) and step = "1.prems"(2) and fin = "1.prems"(3) and arr = "1.prems"(4)
  show ?case
  proof (cases "frontier = []")
    case True
    with inv fin show ?thesis
      by (simp add: aStar_loop.simps [of p goal "[]" tree])
  next
    case False
    show ?thesis
    proof (cases "aStar_body p goal frontier tree")
      case (Inl sol)
      with False have "arrival frontier tree sol"
        by (simp add: aStar_body_Inl)
      with inv arr have "Q sol" by blast
      with Inl False show ?thesis
        by (simp add: aStar_loop.simps [of p goal frontier tree])
    next
      case (Inr st)
      obtain F' T' where st: "st = (F', T')" by (cases st)
      with Inr False have "expansion p goal frontier tree F' T'"
        by (simp add: aStar_body_Inr)
      with inv False step have "I F' T'" by blast
      then have "Q (aStar_loop p goal F' T')"
        using "1.IH" [OF False Inr st [symmetric]] step fin arr by blast
      with Inr st False show ?thesis
        by (simp add: aStar_loop.simps [of p goal frontier tree])
    qed
  qed
qed

lemma customOne_loop_rule:
  assumes "I frontier tree"
    and "\<And>F T F' T'. I F T \<Longrightarrow> F \<noteq> [] \<Longrightarrow> expansion p goal F T F' T' \<Longrightarrow> I F' T'"
    and "\<And>T. I [] T \<Longrightarrow> Q (failed T)"
    and "\<And>F T sol. I F T \<Longrightarrow> arrival F T sol \<Longrightarrow> Q sol"
  shows "Q (customOne_loop p goal frontier tree)"
  using assms
proof (induction p goal frontier tree rule: customOne_loop.induct)
  case (1 p goal frontier tree)
  note inv = "1.prems"(1) and step = "1.prems"(2) and fin = "1.prems"(3) and arr = "1.prems"(4)
  show ?case
  proof (cases "frontier = []")
    case True
    with inv fin show ?thesis
      by (simp add: customOne_loop.simps [of p goal "[]" tree])
  next
    case False
    show ?thesis
    proof (cases "customOne_body p goal frontier tree")
      case (Inl sol)
      with False have "arrival frontier tree sol"
        by (simp add: customOne_body_Inl)
      with inv arr have "Q sol" by blast
      with Inl False show ?thesis
        by (simp add: customOne_loop.simps [of p goal frontier tree])
    next
      case (Inr st)
      obtain F' T' where st: "st = (F', T')" by (cases st)
      with Inr False have "expansion p goal frontier tree F' T'"
        by (simp add: customOne_body_Inr)
      with inv False step have "I F' T'" by blast
      then have "Q (customOne_loop p goal F' T')"
        using "1.IH" [OF False Inr st [symmetric]] step fin arr by blast
      with Inr st False show ?thesis
        by (simp add: customOne_loop.simps [of p goal frontier tree])
    qed
  qed
qed

subsection \<open>The bidirectional loop\<close>

definition directionsOnly :: "path_entry list \<Rightarrow> bool" where
  "directionsOnly es = list_all (\<lambda>e. case e of DirectionOnly _ \<Rightarrow> True | FullNode _ \<Rightarrow> False) es"

lemma directionsOnly_finalPath: "directionsOnly (finalPath js)"
  by (simp add: directionsOnly_def finalPath_def list_all_iff)

lemma directionsOnly_tl: "directionsOnly es \<Longrightarrow> directionsOnly (tl es)"
  by (cases es) (simp_all add: directionsOnly_def)

lemma find_sameCell:
  assumes "n \<in> set tree" and "sameCell n ic"
  shows "\<exists>m. find (\<lambda>n. sameCell n ic) tree = Some m"
  using assms by (cases "find (\<lambda>n. sameCell n ic) tree") (auto simp: find_None_iff)

lemma sameCell_refl: "sameCell n n"
  by (simp add: sameCell_def)

lemma customTwo_body_Inl:
  assumes "customTwo_body p goal frontier tree reverseFrontier reverseTree = Inl res"
    and "frontier \<noteq> []" and "reverseFrontier \<noteq> []"
    and "set frontier \<subseteq> set tree" and "set reverseFrontier \<subseteq> set reverseTree"
  shows "\<exists>sol. res = Inr sol \<and> status sol = Found \<and> directionsOnly (path sol) \<and>
           take (length tree) (searchTree sol) = tree \<and>
           length (searchTree sol) = length tree + length reverseTree"
proof -
  let ?s = "hd frontier" and ?rs = "hd reverseFrontier"
  from assms(1) obtain ic where ic: "intersectingCoordinate ?s ?rs tree reverseTree = Some ic"
    by (cases "intersectingCoordinate ?s ?rs tree reverseTree")
       (auto simp: customTwo_body_def Let_def)
  have s: "?s \<in> set tree" and rs: "?rs \<in> set reverseTree"
    using assms(2-5) by auto
  have "(\<exists>m. find (\<lambda>n. sameCell n ic) tree = Some m) \<and>
        (\<exists>m. find (\<lambda>n. sameCell n ic) reverseTree = Some m)"
  proof (cases "list_ex (\<lambda>rsl. sameCell rsl ?s) reverseTree")
    case True
    with ic have "ic = ?s" by (simp add: intersectingCoordinate_def)
    with True s show ?thesis
      by (auto simp: list_ex_iff intro: find_sameCell sameCell_refl)
  next
    case False
    with ic have "ic = ?rs" and "list_ex (\<lambda>sl. sameCell sl ?rs) tree"
      by (auto simp: intersectingCoordinate_def split: if_splits)
    with rs show ?thesis
      by (auto simp: list_ex_iff intro: find_sameCell sameCell_refl)
  qed
  then obtain fwd bwd where "find (\<lambda>n. sameCell n ic) tree = Some fwd"
    and "find (\<lambda>n. sameCell n ic) reverseTree = Some bwd"
    by blast
  with assms(1) ic show ?thesis
    by (auto simp: customTwo_body_def Let_def directionsOnly_tl directionsOnly_finalPath)
qed

lemma customTwo_body_Inr:
  assumes "customTwo_body p goal frontier tree reverseFrontier reverseTree
             = Inr (frontier', tree', reverseFrontier', reverseTree')"
    and "frontier \<noteq> []" and "reverseFrontier \<noteq> []"
  shows "\<exists>cs rcs. tree' = tree @ cs \<and> reverseTree' = reverseTree @ rcs \<and>
           set frontier' \<subseteq> set frontier \<union> set cs \<and>
           set reverseFrontier' \<subseteq> set reverseFrontier \<union> set rcs"
  using assms set_tl_subset [of frontier] set_tl_subset [of reverseFrontier]
  by (auto simp: customTwo_body_def Let_def split: option.splits prod.splits)

lemma customTwo_loop_rule:
  assumes "I frontier tree reverseFrontier reverseTree"
    and "\<And>F T RF RT F' T' RF' RT'. I F T RF RT \<Longrightarrow> F \<noteq> [] \<Longrightarrow> RF \<noteq> [] \<Longrightarrow>
           customTwo_body p goal F T RF RT = Inr (F', T', RF', RT') \<Longrightarrow> I F' T' RF' RT'"
    and "\<And>F T RF RT. I F T RF RT \<Longrightarrow> F = [] \<or> RF = [] \<Longrightarrow> Q (Inr (failed (T @ RT)))"
    and "\<And>F T RF RT res. I F T RF RT \<Longrightarrow> F \<noteq> [] \<Longrightarrow> RF \<noteq> [] \<Longrightarrow>
           customTwo_body p goal F T RF RT = Inl res \<Longrightarrow> Q res"
  shows "Q (customTwo_loop p goal frontier tree reverseFrontier reverseTree)"
  using assms
proof (induction p goal frontier tree reverseFrontier reverseTree rule: customTwo_loop.induct)
  case (1 p goal frontier tree reverseFrontier reverseTree)
  note inv = "1.prems"(1) and step = "1.prems"(2) and fin = "1.prems"(3) and arr = "1.prems"(4)
  show ?case
  proof (cases "frontier = [] \<or> reverseFrontier = []")
    case True
    with inv fin [of frontier tree reverseFrontier reverseTree] show ?thesis
      by (simp add: customTwo_loop.simps [of p goal frontier tree reverseFrontier reverseTree])
  next
    case False
    show ?thesis
    proof (cases "customTwo_body p goal frontier tree reverseFrontier reverseTree")
      case (Inl res)
      with inv arr False have "Q res" by blast
      with Inl False show ?thesis
        by (simp add: customTwo_loop.simps [of p goal frontier tree reverseFrontier reverseTree])
    next
      case (Inr st)
      obtain F' T' RF' RT' where st: "st = (F', T', RF', RT')" by (cases st)
      with inv False step Inr have "I F' T' RF' RT'" by blast
      then have "Q (customTwo_loop p goal F' T' RF' RT')"
        using "1.IH" [OF False Inr st [symmetric] refl refl] step fin arr by blast
      with Inr st False show ?thesis
        by (simp add: customTwo_loop.simps [of p goal frontier tree reverseFrontier reverseTree])
    qed
  qed
qed

lemma customTwo_loop_returns:
  assumes "set frontier \<subseteq> set tree" and "set reverseFrontier \<subseteq> set reverseTree"
  shows "\<exists>sol. customTwo_loop p goal frontier tree reverseFrontier reverseTree = Inr sol"
proof (rule customTwo_loop_rule
    [where I = "\<lambda>F T RF RT. set F \<subseteq> set T \<and> set RF \<subseteq> set RT"
       and Q = "\<lambda>res. \<exists>sol. res = Inr sol"])
  show "set frontier \<subseteq> set tree \<and> set reverseFrontier \<subseteq> set reverseTree"
    using assms by simp
next
  fix F T RF RT F' T' RF' RT'
  assume "set F \<subseteq> set T \<and> set RF \<subseteq> set RT" and "F \<noteq> []" and "RF \<noteq> []"
    and "customTwo_body p goal F T RF RT = Inr (F', T', RF', RT')"
  then show "set F' \<subseteq> set T' \<and> set RF' \<subseteq> set RT'"
    using customTwo_body_Inr [of p goal F T RF RT F' T' RF' RT'] by auto blast+
next
  fix F T RF RT
  show "\<exists>sol. Inr (failed (T @ RT)) = Inr sol" by simp
next
  fix F T RF RT res
  assume "set F \<subseteq> set T \<and> set RF \<subseteq> set RT" and "F \<noteq> []" and "RF \<noteq> []"
    and "customTwo_body p goal F T RF RT = Inl res"
  then show "\<exists>sol. res = Inr sol"
    by (auto dest!: customTwo_body_Inl)
qed

lemma customTwo_returns: "\<exists>sol. customTwo p goal init = Inr sol"
  by (simp add: customTwo_def Let_def customTwo_loop_returns)

section \<open>Dispatch on the strategy name\<close>

lemma selectAlgorithm_cases:
  "selectAlgorithm m = Own (\<lambda>p goal init. Inr (dfs p goal init)) \<and> m = ''DFS'' \<or>
   selectAlgorithm m = Own (\<lambda>p goal init. Inr (bfs p goal init)) \<and> m = ''BFS'' \<or>
   selectAlgorithm m = Own (\<lambda>p goal init. Inr (gbfs p goal init)) \<and> m = ''GBFS'' \<or>
   selectAlgorithm m = Own (\<lambda>p goal init. Inr (aStar p goal init)) \<and> m = ''AS'' \<or>
   selectAlgorithm m = Own (\<lambda>p goal init. Inr (customOne p goal init)) \<and> m = ''CUS1'' \<or>
   selectAlgorithm m = Own customTwo \<and> m = ''CUS2'' \<or>
   selectAlgorithm m = Inherited m \<and> m \<in> set objectPrototype \<and> m \<notin> set strategyNames \<or>
   selectAlgorithm m = Undefined \<and> m \<notin> set objectPrototype \<and> m \<notin> set strategyNames"
  by (simp add: selectAlgorithm_def strategyNames_def)

lemma callInherited_no_solution: "callInherited name p \<noteq> Inr (SolutionValue sol)"
  by (simp add: callInherited_def)

lemma findSolution_known:
  assumes "m \<in> set strategyNames"
  shows "\<exists>sol. findSolution p startNode goal m = Inr (SolutionValue sol)"
proof -
  obtain sol where "customTwo p goal (getInitialNode startNode goal) = Inr sol"
    using customTwo_returns by blast
  with assms show ?thesis
    by (auto simp: strategyNames_def findSolution_def selectAlgorithm_def)
qed

lemma findSolution_unknown:
  assumes "m \<notin> set strategyNames"
  shows "findSolution p startNode goal m \<noteq> Inr (SolutionValue sol)"
  using assms selectAlgorithm_cases [of m]
  by (auto simp: findSolution_def strategyNames_def callInherited_no_solution)

text \<open>
  Claim C10, as the code has it.  A name outside the six strategy names never selects one
  of the six algorithms, and \<open>findSolution\<close> produces no solution for it; \<open>findSolution\<close>
  (and so \<open>searchMaze\<close> on the first goal of a problem) returns a solution exactly when the
  name is one of the six.  The lookup yields \<open>undefined\<close> only for a name that is not a
  property of \<open>Object.prototype\<close> either; for an inherited name it yields the inherited
  member.
\<close>

theorem selectAlgorithm_unknown_name:
  "(m \<notin> set strategyNames \<longrightarrow>
      (\<forall>algorithm. selectAlgorithm m \<noteq> Own algorithm) \<and>
      (selectAlgorithm m = Undefined \<longleftrightarrow> m \<notin> set objectPrototype) \<and>
      (selectAlgorithm m = Inherited m \<longleftrightarrow> m \<in> set objectPrototype) \<and>
      (\<forall>sol. findSolution p startNode goal m \<noteq> Inr (SolutionValue sol))) \<and>
   ((\<exists>sol. findSolution p startNode goal m = Inr (SolutionValue sol))
      \<longleftrightarrow> m \<in> set strategyNames) \<and>
   (goals p \<noteq> [] \<longrightarrow>
      ((\<exists>sol. searchMaze p m False = Inr (SolutionValue sol)) \<longleftrightarrow> m \<in> set strategyNames))"
proof (intro conjI impI)
  assume m: "m \<notin> set strategyNames"
  with selectAlgorithm_cases [of m]
  have c: "selectAlgorithm m = Inherited m \<and> m \<in> set objectPrototype \<or>
           selectAlgorithm m = Undefined \<and> m \<notin> set objectPrototype"
    by (auto simp: strategyNames_def)
  then show "\<forall>algorithm. selectAlgorithm m \<noteq> Own algorithm" by auto
  from c show "selectAlgorithm m = Undefined \<longleftrightarrow> m \<notin> set objectPrototype" by auto
  from c show "selectAlgorithm m = Inherited m \<longleftrightarrow> m \<in> set objectPrototype" by auto
  from m show "\<forall>sol. findSolution p startNode goal m \<noteq> Inr (SolutionValue sol)"
    by (simp add: findSolution_unknown)
next
  show "(\<exists>sol. findSolution p startNode goal m = Inr (SolutionValue sol))
      \<longleftrightarrow> m \<in> set strategyNames"
    using findSolution_known [of m p startNode goal] findSolution_unknown [of m p startNode goal]
    by blast
next
  assume "goals p \<noteq> []"
  then obtain g gs where "goals p = g # gs" by (cases "goals p") auto
  then show "(\<exists>sol. searchMaze p m False = Inr (SolutionValue sol)) \<longleftrightarrow> m \<in> set strategyNames"
    using findSolution_known [of m p "agentLocation p" g]
      findSolution_unknown [of m p "agentLocation p" g]
    by (auto simp: searchMaze_def)
qed

text \<open>
  The name \<open>toString\<close> is none of the six names, and the lookup does not come back empty:
  it finds \<open>Object.prototype.toString\<close>.
\<close>

theorem selectAlgorithm_unknown_name_counterexample:
  "''toString'' \<notin> set strategyNames \<and> selectAlgorithm ''toString'' \<noteq> Undefined"
  by (simp add: strategyNames_def selectAlgorithm_def objectPrototype_def)

text \<open>
  Runs for C10: the name \<open>XYZ\<close> selects nothing and \<open>findSolution\<close> throws; the name
  \<open>toString\<close> selects the inherited member, whose call returns a string.
\<close>

theorem selectAlgorithm_unknown_name_witness:
  "(let p = \<lparr>mazeSize = \<lparr>rows = 1, columns = 2\<rparr>, agentLocation = \<lparr>x_of = 0, y_of = 0\<rparr>,
             goals = [\<lparr>x_of = 1, y_of = 0\<rparr>], walls = []\<rparr>
    in ''XYZ'' \<notin> set strategyNames \<and>
       selectAlgorithm ''XYZ'' = Undefined \<and>
       findSolution p (agentLocation p) \<lparr>x_of = 1, y_of = 0\<rparr> ''XYZ'' = Inl TypeError \<and>
       goals p \<noteq> [] \<and>
       searchMaze p ''XYZ'' False = Inl TypeError \<and>
       selectAlgorithm ''toString'' = Inherited ''toString'' \<and>
       findSolution p (agentLocation p) \<lparr>x_of = 1, y_of = 0\<rparr> ''toString''
         = Inr (StringValue ''[object Undefined]''))"
proof -
  let ?p = "\<lparr>mazeSize = \<lparr>rows = 1, columns = 2\<rparr>, agentLocation = \<lparr>x_of = 0, y_of = 0\<rparr>,
             goals = [\<lparr>x_of = 1, y_of = 0\<rparr>], walls = []\<rparr>"
  have n: "''XYZ'' \<notin> set strategyNames" "''toString'' \<notin> set strategyNames"
    by (simp_all add: strategyNames_def)
  have o: "''XYZ'' \<notin> set objectPrototype" "''toString'' \<in> set objectPrototype"
    by (simp_all add: objectPrototype_def)
  from selectAlgorithm_unknown_name [of "''XYZ''" ?p "agentLocation ?p" "\<lparr>x_of = 1, y_of = 0\<rparr>"] n o
  have u: "selectAlgorithm ''XYZ'' = Undefined" by blast
  from selectAlgorithm_unknown_name [of "''toString''" ?p "agentLocation ?p" "\<lparr>x_of = 1, y_of = 0\<rparr>"] n o
  have i: "selectAlgorithm ''toString'' = Inherited ''toString''" by blast
  show ?thesis
    using n u i by (simp add: Let_def findSolution_def searchMaze_def callInherited_def)
qed

section \<open>Start and goal at the same cell\<close>

text \<open>
  Claim C9.  When the start coordinate equals the goal coordinate, \<open>customTwo\<close> returns
  \<open>Found\<close> with an empty path and a search tree of exactly two nodes, the forward root and
  the backward root, both at that coordinate: the intersection test succeeds in the first
  iteration, before anything is expanded.
\<close>

theorem customTwo_start_is_goal:
  assumes "agentLocation p = goal"
  shows "customTwo p goal (getInitialNode (agentLocation p) goal)
           = Inr \<lparr>status = Found, path = [],
                  searchTree = [getInitialNode (agentLocation p) goal,
                                getInitialNode goal (agentLocation p)]\<rparr> \<and>
         coordinates (getInitialNode (agentLocation p) goal) = goal \<and>
         coordinates (getInitialNode goal (agentLocation p)) = goal \<and>
         customTwo_body p goal [getInitialNode (agentLocation p) goal]
             [getInitialNode (agentLocation p) goal]
             [getInitialNode goal (agentLocation p)] [getInitialNode goal (agentLocation p)]
           = Inl (Inr \<lparr>status = Found, path = [],
                       searchTree = [getInitialNode (agentLocation p) goal,
                                     getInitialNode goal (agentLocation p)]\<rparr>)"
proof -
  let ?r = "getInitialNode goal goal"
  have body: "customTwo_body p goal [?r] [?r] [?r] [?r]
      = Inl (Inr \<lparr>status = Found, path = [], searchTree = [?r, ?r]\<rparr>)"
    by (simp add: customTwo_body_def intersectingCoordinate_def sameCell_def finalPath_def
        getInitialNode_def Let_def)
  then have "customTwo_loop p goal [?r] [?r] [?r] [?r]
      = Inr \<lparr>status = Found, path = [], searchTree = [?r, ?r]\<rparr>"
    by (simp add: customTwo_loop.simps [of p goal "[?r]" "[?r]" "[?r]" "[?r]"])
  with assms body show ?thesis
    by (simp add: customTwo_def Let_def) (simp add: getInitialNode_def)
qed

text \<open>A run for C9: start and goal at (1,1) of a 3 by 3 maze.\<close>

theorem customTwo_start_is_goal_witness:
  "(let goal = \<lparr>x_of = 1, y_of = 1\<rparr>;
        p = \<lparr>mazeSize = \<lparr>rows = 3, columns = 3\<rparr>, agentLocation = goal,
             goals = [goal], walls = []\<rparr>
    in agentLocation p = goal \<and>
       customTwo p goal (getInitialNode (agentLocation p) goal)
         = Inr \<lparr>status = Found, path = [],
                searchTree = [getInitialNode goal goal, getInitialNode goal goal]\<rparr>)"
proof -
  let ?goal = "\<lparr>x_of = 1, y_of = 1\<rparr>"
  let ?p = "\<lparr>mazeSize = \<lparr>rows = 3, columns = 3\<rparr>, agentLocation = ?goal,
             goals = [?goal], walls = []\<rparr>"
  have a: "agentLocation ?p = ?goal" by simp
  from customTwo_start_is_goal [OF a] show ?thesis
    by (simp add: Let_def)
qed

subsection \<open>The single-frontier strategies never see a goal node\<close>

text \<open>
  The root is built with \<open>isGoal = false\<close> whatever its coordinate is.  Once the goal
  coordinate is in the search tree, no candidate at the goal is generated, so no node of
  the frontier is a goal node.
\<close>

definition goalless :: "coordinate \<Rightarrow> node \<Rightarrow> node list \<Rightarrow> node list \<Rightarrow> bool" where
  "goalless goal r frontier tree \<longleftrightarrow>
     list_all (\<lambda>n. \<not> isGoal n) frontier \<and> goal \<in> coordinates ` set tree \<and>
     tree \<noteq> [] \<and> hd tree = r"

definition rootOnly :: "node \<Rightarrow> solution \<Rightarrow> bool" where
  "rootOnly r sol \<longleftrightarrow>
     status sol = Fail \<and> path sol = [] \<and> searchTree sol \<noteq> [] \<and> hd (searchTree sol) = r"

lemma checkGoal_iff: "checkGoal c goal \<longleftrightarrow> c = goal"
  by (auto simp: checkGoal_def coordinate_eq_iff)

lemma goalless_init: "goalless goal (getInitialNode goal goal) [getInitialNode goal goal]
    [getInitialNode goal goal]"
  by (simp add: goalless_def getInitialNode_def)

lemma goalless_step:
  assumes "goalless goal r F T" and "expansion p goal F T F' T'"
  shows "goalless goal r F' T'"
proof -
  from assms(2) obtain s cs where cs:
    "set cs = set (probeCoordinates (coordinates s) (previousCoordinates s @ [s])
                        (mazeSize p) goal (walls p) T)"
    and T': "T' = T @ cs" and F': "set F' \<subseteq> set F \<union> set cs"
    unfolding expansion_def by blast
  have "\<not> isGoal n" if "n \<in> set cs" for n
  proof -
    from that cs have n: "n \<in> set (probeCoordinates (coordinates s) (previousCoordinates s @ [s])
                        (mazeSize p) goal (walls p) T)" by simp
    from probeCoordinates_fresh(2) [OF n] assms(1) have "coordinates n \<noteq> goal"
      by (auto simp: goalless_def)
    with probeCoordinates_fields(3) [OF n] show ?thesis
      by (simp add: checkGoal_iff)
  qed
  with assms(1) F' T' show ?thesis
    by (auto simp: goalless_def list_all_iff)
qed

lemma goalless_fin: "goalless goal r [] T \<Longrightarrow> rootOnly r (failed T)"
  by (simp add: goalless_def rootOnly_def failed_def)

lemma goalless_arrival: "goalless goal r F T \<Longrightarrow> arrival F T sol \<Longrightarrow> rootOnly r sol"
  by (auto simp: goalless_def arrival_def list_all_iff)

lemma dfs_start_is_goal: "rootOnly (getInitialNode goal goal) (dfs p goal (getInitialNode goal goal))"
  unfolding dfs_def
  by (rule dfs_loop_rule [where I = "goalless goal (getInitialNode goal goal)"])
     (auto intro: goalless_init goalless_step goalless_fin goalless_arrival)

lemma bfs_start_is_goal: "rootOnly (getInitialNode goal goal) (bfs p goal (getInitialNode goal goal))"
  unfolding bfs_def
  by (rule bfs_loop_rule [where I = "goalless goal (getInitialNode goal goal)"])
     (auto intro: goalless_init goalless_step goalless_fin goalless_arrival)

lemma gbfs_start_is_goal: "rootOnly (getInitialNode goal goal) (gbfs p goal (getInitialNode goal goal))"
  unfolding gbfs_def
  by (rule gbfs_loop_rule [where I = "goalless goal (getInitialNode goal goal)"])
     (auto intro: goalless_init goalless_step goalless_fin goalless_arrival)

lemma aStar_start_is_goal: "rootOnly (getInitialNode goal goal) (aStar p goal (getInitialNode goal goal))"
  unfolding aStar_def
  by (rule aStar_loop_rule [where I = "goalless goal (getInitialNode goal goal)"])
     (auto intro: goalless_init goalless_step goalless_fin goalless_arrival)

lemma customOne_start_is_goal:
  "rootOnly (getInitialNode goal goal) (customOne p goal (getInitialNode goal goal))"
  unfolding customOne_def
  by (rule customOne_loop_rule [where I = "goalless goal (getInitialNode goal goal)"])
     (auto intro: goalless_init goalless_step goalless_fin goalless_arrival)

lemma customTwo_roots_meet:
  assumes "agentLocation p = goal"
  shows "customTwo p goal (getInitialNode goal goal)
     = Inr \<lparr>status = Found, path = [],
            searchTree = [getInitialNode goal goal, getInitialNode goal goal]\<rparr>"
proof -
  let ?r = "getInitialNode goal goal"
  have "customTwo_body p goal [?r] [?r] [?r] [?r]
      = Inl (Inr \<lparr>status = Found, path = [], searchTree = [?r, ?r]\<rparr>)"
    by (simp add: customTwo_body_def intersectingCoordinate_def sameCell_def finalPath_def
        getInitialNode_def Let_def)
  then have "customTwo_loop p goal [?r] [?r] [?r] [?r]
      = Inr \<lparr>status = Found, path = [], searchTree = [?r, ?r]\<rparr>"
    by (simp add: customTwo_loop.simps [of p goal "[?r]" "[?r]" "[?r]" "[?r]"])
  with assms show ?thesis
    by (simp add: customTwo_def Let_def)
qed

text \<open>
  Claim C4, as the code has it.  When the start coordinate equals the first goal, the
  single-goal search returns, for each of the six strategy names, a solution with an empty
  path whose search tree begins with the root node; under \<open>CUS2\<close> the status is \<open>Found\<close> and
  the search tree holds two nodes, the forward root followed by the backward root, not
  the root alone.
\<close>

theorem searchMaze_start_is_goal:
  assumes "goals p = goal # others" and "agentLocation p = goal" and "m \<in> set strategyNames"
  shows "\<exists>sol. searchMaze p m False = Inr (SolutionValue sol) \<and>
           path sol = [] \<and> searchTree sol \<noteq> [] \<and>
           hd (searchTree sol) = getInitialNode (agentLocation p) goal \<and>
           (m = ''CUS2'' \<longrightarrow>
              status sol = Found \<and>
              searchTree sol = [getInitialNode (agentLocation p) goal,
                                getInitialNode goal (agentLocation p)])"
proof -
  note five = dfs_start_is_goal [of goal p] bfs_start_is_goal [of goal p]
    gbfs_start_is_goal [of goal p] aStar_start_is_goal [of goal p]
    customOne_start_is_goal [of goal p]
  note two = customTwo_roots_meet [OF assms(2)]
  from assms(3) consider "m = ''DFS''" | "m = ''BFS''" | "m = ''GBFS''" | "m = ''AS''"
    | "m = ''CUS1''" | "m = ''CUS2''"
    by (auto simp: strategyNames_def)
  then show ?thesis
    using assms(1,2) five two
    by cases (simp_all add: searchMaze_def findSolution_def selectAlgorithm_def rootOnly_def)
qed

text \<open>
  Runs against C4 as it is written, in a maze of one row and two columns with start and
  goal both at (0,0).  \<open>CUS2\<close> returns \<open>Found\<close> with an empty path, and a search tree of two
  nodes.  \<open>DFS\<close> expands the root, records the cell to the right and ends with status
  \<open>Fail\<close>.
\<close>

theorem searchMaze_start_is_goal_counterexample:
  "(let p = \<lparr>mazeSize = \<lparr>rows = 1, columns = 2\<rparr>, agentLocation = \<lparr>x_of = 0, y_of = 0\<rparr>,
             goals = [\<lparr>x_of = 0, y_of = 0\<rparr>], walls = []\<rparr>;
        r = getInitialNode \<lparr>x_of = 0, y_of = 0\<rparr> \<lparr>x_of = 0, y_of = 0\<rparr>
    in searchMaze p ''CUS2'' False
         = Inr (SolutionValue \<lparr>status = Found, path = [], searchTree = [r, r]\<rparr>) \<and>
       searchMaze p ''DFS'' False
         = Inr (SolutionValue \<lparr>status = Fail, path = [],
             searchTree =
               [r, Node ''right; '' \<lparr>x_of = 1, y_of = 0\<rparr> False [r]
                     \<lparr>fromCurrentNode = 1, fromStartingNode = 1, nodesTravelled = 1\<rparr> 1]\<rparr>))"
  by code_simp

text \<open>
  A run for C4 as amended: in a 3 by 3 maze with start and goal at (1,1), \<open>CUS2\<close> returns
  \<open>Found\<close>, an empty path and the two roots.
\<close>

theorem searchMaze_start_is_goal_witness:
  "(let goal = \<lparr>x_of = 1, y_of = 1\<rparr>;
        p = \<lparr>mazeSize = \<lparr>rows = 3, columns = 3\<rparr>, agentLocation = goal,
             goals = [goal], walls = []\<rparr>
    in goals p = goal # [] \<and> agentLocation p = goal \<and> ''CUS2'' \<in> set strategyNames \<and>
       searchMaze p ''CUS2'' False
         = Inr (SolutionValue \<lparr>status = Found, path = [],
                  searchTree = [getInitialNode goal goal, getInitialNode goal goal]\<rparr>))"
proof -
  let ?goal = "\<lparr>x_of = 1, y_of = 1\<rparr>"
  let ?p = "\<lparr>mazeSize = \<lparr>rows = 3, columns = 3\<rparr>, agentLocation = ?goal,
             goals = [?goal], walls = []\<rparr>"
  have g: "goals ?p = ?goal # []" and a: "agentLocation ?p = ?goal"
    and m: "''CUS2'' \<in> set strategyNames"
    by (simp_all add: strategyNames_def)
  from searchMaze_start_is_goal [OF g a m]
  obtain sol where sol: "searchMaze ?p ''CUS2'' False = Inr (SolutionValue sol)"
    "path sol = []" "status sol = Found"
    "searchTree sol = [getInitialNode ?goal ?goal, getInitialNode ?goal ?goal]"
    by auto
  then have "sol = \<lparr>status = Found, path = [],
                  searchTree = [getInitialNode ?goal ?goal, getInitialNode ?goal ?goal]\<rparr>"
    by (cases sol) simp
  with sol(1) g a m show ?thesis
    by (simp add: Let_def)
qed

section \<open>The multi-goal orchestrator\<close>

text \<open>
  What \<open>searchAllGoals\<close> returns for a known strategy name: one leg for every goal, the
  paths and the search trees of the legs concatenated in the order of the visits, and the
  status \<open>Found\<close> as soon as there is a goal at all, whatever the legs returned.
\<close>

lemma combine_sel:
  "status (combine a b) = Found"
  "path (combine a b) = path a @ path b"
  "searchTree (combine a b) = searchTree a @ searchTree b"
  by (simp_all add: combine_def)

lemma foldl_combine:
  "foldl combine acc sols =
     \<lparr>status = (if sols = [] then status acc else Found),
      path = path acc @ concat (map path sols),
      searchTree = searchTree acc @ concat (map searchTree sols)\<rparr>"
proof (induction sols arbitrary: acc)
  case Nil
  show ?case by simp
next
  case (Cons a sols)
  have "foldl combine acc (a # sols) = foldl combine (combine acc a) sols"
    by simp
  also have "\<dots> = \<lparr>status = (if sols = [] then status (combine acc a) else Found),
      path = path (combine acc a) @ concat (map path sols),
      searchTree = searchTree (combine acc a) @ concat (map searchTree sols)\<rparr>"
    by (rule Cons.IH)
  finally show ?case
    by (simp add: combine_sel)
qed

lemma searchAllGoals_concat:
  assumes "searchAllGoals_loop p m (zip [0..<length (goals p)] (goals p)) (agentLocation p) []
             = Inr solutionPath"
  shows "searchAllGoals p m =
           Inr \<lparr>status = (if solutionPath = [] then Fail else Found),
                path = concat (map path solutionPath),
                searchTree = concat (map searchTree solutionPath)\<rparr>"
  using assms by (simp add: searchAllGoals_def foldl_combine)

lemma filter_drops_one:
  assumes "distinct (map fst goalList)" and "g \<in> set goalList"
  shows "Suc (length (filter (\<lambda>h. fst h \<noteq> fst g) goalList)) = length goalList"
  using assms
proof (induction goalList)
  case Nil
  then show ?case by simp
next
  case (Cons a goalList)
  show ?case
  proof (cases "a = g")
    case True
    with Cons.prems(1) have "fst g \<notin> fst ` set goalList" by simp
    then have "\<forall>h \<in> set goalList. fst h \<noteq> fst g" by (metis image_eqI)
    then have "filter (\<lambda>h. fst h \<noteq> fst g) goalList = goalList"
      by (simp add: filter_id_conv)
    with True show ?thesis by simp
  next
    case False
    with Cons.prems have g: "g \<in> set goalList" and d: "distinct (map fst goalList)" by auto
    with Cons.prems(1) have "fst a \<noteq> fst g" by (auto simp: image_iff)
    with Cons.IH [OF d g] show ?thesis by simp
  qed
qed

lemma searchAllGoals_loop_length:
  assumes "searchAllGoals_loop p m goalList startNode solutionPath = Inr result"
    and "distinct (map fst goalList)"
  shows "length result = length solutionPath + length goalList \<and>
         take (length solutionPath) result = solutionPath"
  using assms
proof (induction p m goalList startNode solutionPath rule: searchAllGoals_loop.induct)
  case (1 p m goalList startNode solutionPath)
  show ?case
  proof (cases "goalList = []")
    case True
    with "1.prems"(1) show ?thesis
      by (simp add: searchAllGoals_loop.simps [of p m "[]" startNode solutionPath])
  next
    case False
    from "1.prems"(1) False obtain ls where ls: "legs p m startNode goalList = Inr ls"
      by (cases "legs p m startNode goalList")
         (auto simp: searchAllGoals_loop.simps [of p m goalList startNode solutionPath])
    let ?solutions = "sort_key (\<lambda>l. - int (length (path (snd l)))) ls"
    let ?chosen = "last ?solutions"
    let ?rest = "filter (\<lambda>g. fst g \<noteq> fst (fst ?chosen)) goalList"
    from "1.prems"(1) False ls
    have eq: "searchAllGoals_loop p m ?rest (snd (fst ?chosen)) (solutionPath @ [snd ?chosen])
                = Inr result"
      by (simp add: searchAllGoals_loop.simps [of p m goalList startNode solutionPath] Let_def)
    from legs_fst [OF ls] False have "ls \<noteq> []" by auto
    then have "?solutions \<noteq> []" by (metis length_0_conv length_sort)
    then have "?chosen \<in> set ls" by (metis last_in_set set_sort)
    then have mem: "fst ?chosen \<in> set goalList"
      using legs_fst [OF ls] by force
    have d: "distinct (map fst ?rest)"
      using "1.prems"(2) by (simp add: distinct_map_filter)
    from "1.IH" [OF False ls refl refl eq d]
    have len: "length result = length (solutionPath @ [snd ?chosen]) + length ?rest"
      and tk: "take (length (solutionPath @ [snd ?chosen])) result = solutionPath @ [snd ?chosen]"
      by simp_all
    from filter_drops_one [OF "1.prems"(2) mem]
    have one: "Suc (length ?rest) = length goalList" .
    have "take (length solutionPath) result
            = take (length solutionPath) (take (length (solutionPath @ [snd ?chosen])) result)"
      by (simp add: min_def)
    also have "\<dots> = solutionPath"
      by (simp only: tk) simp
    finally show ?thesis
      using len one by simp
  qed
qed


lemma legs_known:
  assumes "m \<in> set strategyNames"
  shows "\<exists>ls. legs p m startNode goalList = Inr ls"
proof (induction goalList)
  case Nil
  show ?case by (simp add: legs_def)
next
  case (Cons g goalList)
  then obtain ls where "legs p m startNode goalList = Inr ls" by blast
  moreover obtain sol where "findSolution p startNode (snd g) m = Inr (SolutionValue sol)"
    using findSolution_known [OF assms] by blast
  ultimately show ?case
    by (simp add: legs_def)
qed

lemma searchAllGoals_loop_known:
  assumes "m \<in> set strategyNames"
  shows "\<exists>result. searchAllGoals_loop p m goalList startNode solutionPath = Inr result"
  using assms
proof (induction p m goalList startNode solutionPath rule: searchAllGoals_loop.induct)
  case (1 p m goalList startNode solutionPath)
  show ?case
  proof (cases "goalList = []")
    case True
    then show ?thesis
      by (simp add: searchAllGoals_loop.simps [of p m "[]" startNode solutionPath])
  next
    case False
    obtain ls where ls: "legs p m startNode goalList = Inr ls"
      using legs_known [OF "1.prems"] by blast
    from "1.IH" [OF False ls refl refl "1.prems"] False ls show ?thesis
      by (simp add: searchAllGoals_loop.simps [of p m goalList startNode solutionPath] Let_def)
  qed
qed

lemma searchAllGoals_known:
  assumes "m \<in> set strategyNames"
  shows "\<exists>solutionPath.
           searchAllGoals_loop p m (zip [0..<length (goals p)] (goals p)) (agentLocation p) []
             = Inr solutionPath \<and>
           length solutionPath = length (goals p) \<and>
           searchAllGoals p m =
             Inr \<lparr>status = (if goals p = [] then Fail else Found),
                  path = concat (map path solutionPath),
                  searchTree = concat (map searchTree solutionPath)\<rparr>"
proof -
  let ?gl = "zip [0..<length (goals p)] (goals p)"
  obtain sp where sp: "searchAllGoals_loop p m ?gl (agentLocation p) [] = Inr sp"
    using searchAllGoals_loop_known [OF assms] by blast
  have "distinct (map fst ?gl)" by simp
  from searchAllGoals_loop_length [OF sp this] have len: "length sp = length (goals p)"
    by simp
  then have "sp = [] \<longleftrightarrow> goals p = []" by auto
  with searchAllGoals_concat [OF sp] sp len show ?thesis
    by simp
qed

text \<open>
  Claim C5 at a failing input.  In a maze of one row and three columns a wall at (1,0)
  separates the start (0,0) from the only goal (2,0).  The single leg of the tour, \<open>DFS\<close>
  from (0,0) to (2,0), returns \<open>Fail\<close>; \<open>searchAllGoals\<close> nevertheless returns status \<open>Found\<close>, because the final
  \<open>reduce\<close> sets the status to \<open>found\<close> for every leg it folds in.
\<close>

theorem searchAllGoals_failed_leg:
  "(let p = \<lparr>mazeSize = \<lparr>rows = 1, columns = 3\<rparr>, agentLocation = \<lparr>x_of = 0, y_of = 0\<rparr>,
             goals = [\<lparr>x_of = 2, y_of = 0\<rparr>],
             walls = [\<lparr>wall_x = 1, wall_y = 0, wall_columns = 1, wall_rows = 1\<rparr>]\<rparr>;
        r = getInitialNode \<lparr>x_of = 0, y_of = 0\<rparr> \<lparr>x_of = 2, y_of = 0\<rparr>
    in findSolution p (agentLocation p) \<lparr>x_of = 2, y_of = 0\<rparr> ''DFS''
         = Inr (SolutionValue \<lparr>status = Fail, path = [], searchTree = [r]\<rparr>) \<and>
       searchAllGoals p ''DFS'' = Inr \<lparr>status = Found, path = [], searchTree = [r]\<rparr>)"
  by code_simp

section \<open>Outlines of solutions\<close>

text \<open>
  A search node holds copies of all its ancestors, so a search tree written out in full
  is large.  Runs are stated through the outline of the solution: the status, the
  direction labels of the path (what the command line prints), and the coordinate, depth
  and goal flag of every node of the search tree.
\<close>

definition outline ::
  "solution \<Rightarrow> status \<times> string list \<times> (int \<times> int \<times> int \<times> bool) list" where
  "outline sol =
     (status sol, map entry_direction (path sol),
      map (\<lambda>n. (x_of (coordinates n), y_of (coordinates n), depth n, isGoal n))
        (searchTree sol))"

section \<open>The depth limit of \<open>customOne\<close>\<close>

text \<open>
  Every node of the frontier of \<open>customOne\<close> has as many ancestors as its \<open>depth\<close> says,
  and a depth of at most \<open>depthLimit\<close>.
\<close>

definition withinLimit :: "node list \<Rightarrow> bool" where
  "withinLimit frontier \<longleftrightarrow>
     list_all (\<lambda>n. depth n = int (length (previousCoordinates n)) \<and> depth n \<le> depthLimit)
       frontier"

lemma customOne_body_pushed:
  assumes "frontier \<noteq> []" and "\<not> isGoal (last frontier)"
  shows "customOne_body p goal frontier tree =
           (let s = last frontier;
                candidates = rev (probeCoordinates (coordinates s) (previousCoordinates s @ [s])
                                    (mazeSize p) goal (walls p) tree)
            in Inr (if depth s = depthLimit then butlast frontier
                    else butlast frontier @ candidates,
                    tree @ candidates))"
proof -
  let ?s = "last frontier"
  let ?cs = "rev (probeCoordinates (coordinates ?s) (previousCoordinates ?s @ [?s])
                    (mazeSize p) goal (walls p) tree)"
  have "firstDepth ?cs = depth ?s + 1" if "?cs \<noteq> []"
  proof -
    from that have "hd ?cs \<in> set (probeCoordinates (coordinates ?s) (previousCoordinates ?s @ [?s])
                    (mazeSize p) goal (walls p) tree)"
      by (metis hd_in_set set_rev)
    from probeCoordinates_fields(4) [OF this] that show ?thesis
      by (cases ?cs) (simp_all add: firstDepth_def)
  qed
  then have "(if firstDepth ?cs \<noteq> depthLimit + 1 then butlast frontier @ ?cs else butlast frontier)
      = (if depth ?s = depthLimit then butlast frontier else butlast frontier @ ?cs)"
    by (cases "?cs = []") auto
  with assms show ?thesis
    by (simp add: customOne_body_def Let_def)
qed

lemma customOne_body_withinLimit:
  assumes "customOne_body p goal frontier tree = Inr (frontier', tree')"
    and "frontier \<noteq> []" and "withinLimit frontier"
  shows "withinLimit frontier'"
proof -
  let ?s = "last frontier"
  let ?cs = "rev (probeCoordinates (coordinates ?s) (previousCoordinates ?s @ [?s])
                    (mazeSize p) goal (walls p) tree)"
  from assms(1) have ng: "\<not> isGoal ?s"
    by (auto simp: customOne_body_def Let_def split: if_splits)
  from assms(2) have "?s \<in> set frontier" by simp
  with assms(3) have s: "depth ?s = int (length (previousCoordinates ?s))" "depth ?s \<le> depthLimit"
    by (auto simp: withinLimit_def list_all_iff)
  from assms(3) have rest: "withinLimit (butlast frontier)"
    by (auto simp: withinLimit_def list_all_iff dest: in_set_butlastD)
  have cs: "depth n = int (length (previousCoordinates n)) \<and> depth n = depth ?s + 1"
    if "n \<in> set ?cs" for n
  proof -
    from that have n: "n \<in> set (probeCoordinates (coordinates ?s) (previousCoordinates ?s @ [?s])
                    (mazeSize p) goal (walls p) tree)" by simp
    from probeCoordinates_fields(1,4) [OF n] s show ?thesis by simp
  qed
  from assms(1) customOne_body_pushed [OF assms(2) ng, of p goal tree]
  have F': "frontier' = (if depth ?s = depthLimit then butlast frontier
                          else butlast frontier @ ?cs)"
    by (simp add: Let_def)
  show ?thesis
  proof (cases "depth ?s = depthLimit")
    case True
    with F' rest show ?thesis by simp
  next
    case False
    with s have "depth ?s + 1 \<le> depthLimit" by simp
    with cs have "withinLimit ?cs"
      unfolding withinLimit_def list_all_iff by fastforce
    with F' False rest show ?thesis
      by (simp add: withinLimit_def)
  qed
qed

lemma customOne_loop_withinLimit:
  assumes "withinLimit frontier"
  shows "int (length (path (customOne_loop p goal frontier tree))) \<le> depthLimit"
  using assms
proof (induction p goal frontier tree rule: customOne_loop.induct)
  case (1 p goal frontier tree)
  show ?case
  proof (cases "frontier = []")
    case True
    then show ?thesis
      by (simp add: customOne_loop.simps [of p goal "[]" tree] failed_def depthLimit_def)
  next
    case False
    show ?thesis
    proof (cases "customOne_body p goal frontier tree")
      case (Inl sol)
      with False have "arrival frontier tree sol"
        by (simp add: customOne_body_Inl)
      then obtain s where "s \<in> set frontier" and "sol = found (previousCoordinates s @ [s]) tree"
        unfolding arrival_def by blast
      with "1.prems" have "int (length (path sol)) \<le> depthLimit"
        by (auto simp: withinLimit_def list_all_iff found_def)
      with Inl False show ?thesis
        by (simp add: customOne_loop.simps [of p goal frontier tree])
    next
      case (Inr st)
      obtain F' T' where st: "st = (F', T')" by (cases st)
      with Inr False "1.prems" have "withinLimit F'"
        by (auto intro: customOne_body_withinLimit)
      from "1.IH" [OF False Inr st [symmetric] this] Inr st False show ?thesis
        by (simp add: customOne_loop.simps [of p goal frontier tree])
    qed
  qed
qed

text \<open>
  Claim C6.  The path of the solution that \<open>customOne\<close> returns from a root node is never
  longer than the depth limit, 10.  An iteration that expands a node at the limit still
  generates the candidates and appends them to the search tree, but pushes none of them
  onto the frontier; below the limit the candidates are pushed as well.
\<close>

theorem customOne_depth_limit:
  "int (length (path (customOne p goal (getInitialNode startNode goal)))) \<le> depthLimit \<and>
   findSolution p startNode goal ''CUS1''
     = Inr (SolutionValue (customOne p goal (getInitialNode startNode goal))) \<and>
   depthLimit = 10 \<and>
   (frontier \<noteq> [] \<and> \<not> isGoal (last frontier) \<longrightarrow>
      customOne_body p goal frontier tree =
        (let s = last frontier;
             candidates = rev (probeCoordinates (coordinates s) (previousCoordinates s @ [s])
                                 (mazeSize p) goal (walls p) tree)
         in Inr (if depth s = depthLimit then butlast frontier
                 else butlast frontier @ candidates,
                 tree @ candidates)))"
proof (intro conjI impI)
  have "withinLimit [getInitialNode startNode goal]"
    by (simp add: withinLimit_def getInitialNode_def depthLimit_def)
  then show "int (length (path (customOne p goal (getInitialNode startNode goal)))) \<le> depthLimit"
    unfolding customOne_def by (rule customOne_loop_withinLimit)
next
  show "findSolution p startNode goal ''CUS1''
     = Inr (SolutionValue (customOne p goal (getInitialNode startNode goal)))"
    by (simp add: findSolution_def selectAlgorithm_def)
next
  show "depthLimit = 10" by (simp add: depthLimit_def)
next
  assume "frontier \<noteq> [] \<and> \<not> isGoal (last frontier)"
  then show "customOne_body p goal frontier tree =
        (let s = last frontier;
             candidates = rev (probeCoordinates (coordinates s) (previousCoordinates s @ [s])
                                 (mazeSize p) goal (walls p) tree)
         in Inr (if depth s = depthLimit then butlast frontier
                 else butlast frontier @ candidates,
                 tree @ candidates))"
    by (simp add: customOne_body_pushed)
qed

text \<open>
  Runs for C6 in a corridor of one row and twelve columns, from (0,0) to the goal (11,0),
  eleven steps away.  The first iteration expands the root, which is below the limit, and
  pushes its candidate.  The whole run ends with \<open>Fail\<close>: the goal node is generated at
  depth 11 and recorded as the last node of the search tree, but never pushed.
\<close>

theorem customOne_depth_limit_witness:
  "(let goal = \<lparr>x_of = 11, y_of = 0\<rparr>;
        p = \<lparr>mazeSize = \<lparr>rows = 1, columns = 12\<rparr>, agentLocation = \<lparr>x_of = 0, y_of = 0\<rparr>,
             goals = [goal], walls = []\<rparr>;
        r = getInitialNode \<lparr>x_of = 0, y_of = 0\<rparr> goal;
        n = Node ''right; '' \<lparr>x_of = 1, y_of = 0\<rparr> False [r]
              \<lparr>fromCurrentNode = 10, fromStartingNode = 21, nodesTravelled = 1\<rparr> 1;
        sol = customOne p goal r
    in [r] \<noteq> [] \<and> \<not> isGoal (last [r]) \<and>
       customOne_body p goal [r] [r] = Inr ([n], [r, n]) \<and>
       int (length (path sol)) \<le> 10 \<and>
       outline sol =
         (Fail, [],
          [(0, 0, 0, False), (1, 0, 1, False), (2, 0, 2, False), (3, 0, 3, False),
           (4, 0, 4, False), (5, 0, 5, False), (6, 0, 6, False), (7, 0, 7, False),
           (8, 0, 8, False), (9, 0, 9, False), (10, 0, 10, False), (11, 0, 11, True)]))"
proof -
  let ?goal = "\<lparr>x_of = 11, y_of = 0\<rparr>"
  let ?p = "\<lparr>mazeSize = \<lparr>rows = 1, columns = 12\<rparr>, agentLocation = \<lparr>x_of = 0, y_of = 0\<rparr>,
             goals = [?goal], walls = []\<rparr>"
  let ?r = "getInitialNode \<lparr>x_of = 0, y_of = 0\<rparr> ?goal"
  let ?n = "Node ''right; '' \<lparr>x_of = 1, y_of = 0\<rparr> False [?r]
              \<lparr>fromCurrentNode = 10, fromStartingNode = 21, nodesTravelled = 1\<rparr> 1"
  let ?sol = "customOne ?p ?goal ?r"
  have h: "[?r] \<noteq> [] \<and> \<not> isGoal (last [?r])"
    by (simp add: getInitialNode_def)
  have cs: "rev (probeCoordinates (coordinates ?r) [?r] (mazeSize ?p) ?goal (walls ?p) [?r]) = [?n]"
    by code_simp
  have d: "depth ?r \<noteq> depthLimit"
    by (simp add: getInitialNode_def depthLimit_def)
  have run: "outline ?sol =
         (Fail, [],
          [(0, 0, 0, False), (1, 0, 1, False), (2, 0, 2, False), (3, 0, 3, False),
           (4, 0, 4, False), (5, 0, 5, False), (6, 0, 6, False), (7, 0, 7, False),
           (8, 0, 8, False), (9, 0, 9, False), (10, 0, 10, False), (11, 0, 11, True)])"
    by code_simp
  from customOne_depth_limit [of ?p ?goal "\<lparr>x_of = 0, y_of = 0\<rparr>" "[?r]" "[?r]"]
  have "int (length (path ?sol)) \<le> 10"
    and "customOne_body ?p ?goal [?r] [?r] =
        (let s = last [?r];
             candidates = rev (probeCoordinates (coordinates s) (previousCoordinates s @ [s])
                                 (mazeSize ?p) ?goal (walls ?p) [?r])
         in Inr (if depth s = depthLimit then butlast [?r]
                 else butlast [?r] @ candidates,
                 [?r] @ candidates))"
    using h by simp_all
  moreover have "previousCoordinates ?r = []"
    by (simp add: getInitialNode_def)
  ultimately have "int (length (path ?sol)) \<le> 10"
    and "customOne_body ?p ?goal [?r] [?r] = Inr ([?n], [?r, ?n])"
    using cs d by (simp_all add: Let_def)
  with h run show ?thesis
    by (simp add: Let_def)
qed

section \<open>Growth of the search tree and the nodes of the path\<close>

definition pathInTree :: "solution \<Rightarrow> bool" where
  "pathInTree sol =
     list_all (\<lambda>e. case e of FullNode n \<Rightarrow> n \<in> set (searchTree sol) | DirectionOnly _ \<Rightarrow> False)
       (path sol)"

definition rooted :: "node list \<Rightarrow> node list \<Rightarrow> bool" where
  "rooted frontier tree \<longleftrightarrow>
     list_all (\<lambda>n. n \<in> set tree \<and> set (previousCoordinates n) \<subseteq> set tree) frontier"

lemma rooted_init: "rooted [getInitialNode agent goal] [getInitialNode agent goal]"
  by (simp add: rooted_def getInitialNode_def)

lemma rooted_step:
  assumes "rooted F T" and "expansion p goal F T F' T'"
  shows "rooted F' T'"
proof -
  from assms(2) obtain s cs where s: "s \<in> set F"
    and cs: "set cs = set (probeCoordinates (coordinates s) (previousCoordinates s @ [s])
                        (mazeSize p) goal (walls p) T)"
    and T': "T' = T @ cs" and F': "set F' \<subseteq> set F \<union> set cs"
    unfolding expansion_def by blast
  from assms(1) s have sT: "s \<in> set T" "set (previousCoordinates s) \<subseteq> set T"
    by (auto simp: rooted_def list_all_iff)
  have "n \<in> set T' \<and> set (previousCoordinates n) \<subseteq> set T'" if "n \<in> set F'" for n
  proof (cases "n \<in> set cs")
    case True
    with cs have "n \<in> set (probeCoordinates (coordinates s) (previousCoordinates s @ [s])
                        (mazeSize p) goal (walls p) T)" by simp
    from probeCoordinates_fields(1) [OF this] True sT T' show ?thesis by auto
  next
    case False
    with that F' have "n \<in> set F" by auto
    with assms(1) T' show ?thesis
      by (auto simp: rooted_def list_all_iff)
  qed
  then show ?thesis
    by (simp add: rooted_def list_all_iff)
qed

lemma pathInTree_failed: "pathInTree (failed T)"
  by (simp add: pathInTree_def failed_def)

lemma rooted_arrival:
  assumes "rooted F T" and "arrival F T sol"
  shows "pathInTree sol"
proof -
  from assms(2) obtain s where s: "s \<in> set F" and sol: "sol = found (previousCoordinates s @ [s]) T"
    unfolding arrival_def by blast
  from assms(1) s have "set (previousCoordinates s @ [s]) \<subseteq> set T"
    by (auto simp: rooted_def list_all_iff)
  moreover have "set (tl (previousCoordinates s @ [s])) \<subseteq> set (previousCoordinates s @ [s])"
    by (rule set_tl_subset)
  ultimately have "set (tl (previousCoordinates s @ [s])) \<subseteq> set T" by blast
  with sol show ?thesis
    by (auto simp: pathInTree_def found_def list_all_iff)
qed

lemma dfs_pathInTree: "pathInTree (dfs p goal (getInitialNode agent goal))"
  unfolding dfs_def
  by (rule dfs_loop_rule [where I = rooted])
     (auto intro: rooted_init rooted_step pathInTree_failed rooted_arrival)

lemma bfs_pathInTree: "pathInTree (bfs p goal (getInitialNode agent goal))"
  unfolding bfs_def
  by (rule bfs_loop_rule [where I = rooted])
     (auto intro: rooted_init rooted_step pathInTree_failed rooted_arrival)

lemma gbfs_pathInTree: "pathInTree (gbfs p goal (getInitialNode agent goal))"
  unfolding gbfs_def
  by (rule gbfs_loop_rule [where I = rooted])
     (auto intro: rooted_init rooted_step pathInTree_failed rooted_arrival)

lemma aStar_pathInTree: "pathInTree (aStar p goal (getInitialNode agent goal))"
  unfolding aStar_def
  by (rule aStar_loop_rule [where I = rooted])
     (auto intro: rooted_init rooted_step pathInTree_failed rooted_arrival)

lemma customOne_pathInTree: "pathInTree (customOne p goal (getInitialNode agent goal))"
  unfolding customOne_def
  by (rule customOne_loop_rule [where I = rooted])
     (auto intro: rooted_init rooted_step pathInTree_failed rooted_arrival)

text \<open>The tree a loop starts from is a prefix of the tree it returns.\<close>

lemma expansion_prefix: "expansion p goal F T F' T' \<Longrightarrow> prefix T T'"
  by (auto simp: expansion_def)

lemma arrival_tree: "arrival F T sol \<Longrightarrow> searchTree sol = T"
  by (auto simp: arrival_def found_def)

lemma dfs_loop_prefix: "prefix tree (searchTree (dfs_loop p goal frontier tree))"
  by (rule dfs_loop_rule [where I = "\<lambda>F T. prefix tree T"])
     (auto dest: expansion_prefix arrival_tree simp: failed_def)

lemma bfs_loop_prefix: "prefix tree (searchTree (bfs_loop p goal frontier tree))"
  by (rule bfs_loop_rule [where I = "\<lambda>F T. prefix tree T"])
     (auto dest: expansion_prefix arrival_tree simp: failed_def)

lemma gbfs_loop_prefix: "prefix tree (searchTree (gbfs_loop p goal frontier tree))"
  by (rule gbfs_loop_rule [where I = "\<lambda>F T. prefix tree T"])
     (auto dest: expansion_prefix arrival_tree simp: failed_def)

lemma aStar_loop_prefix: "prefix tree (searchTree (aStar_loop p goal frontier tree))"
  by (rule aStar_loop_rule [where I = "\<lambda>F T. prefix tree T"])
     (auto dest: expansion_prefix arrival_tree simp: failed_def)

lemma customOne_loop_prefix: "prefix tree (searchTree (customOne_loop p goal frontier tree))"
  by (rule customOne_loop_rule [where I = "\<lambda>F T. prefix tree T"])
     (auto dest: expansion_prefix arrival_tree simp: failed_def)

subsection \<open>The two trees of the bidirectional search\<close>

definition grown :: "node list \<Rightarrow> node list \<Rightarrow> js_error + solution \<Rightarrow> bool" where
  "grown tree reverseTree res \<longleftrightarrow>
     (\<exists>sol. res = Inr sol \<and> directionsOnly (path sol) \<and>
        take (length tree) (searchTree sol) = tree \<and>
        length tree + length reverseTree \<le> length (searchTree sol))"

lemma prefix_take: "prefix xs ys \<Longrightarrow> take (length xs) ys = xs"
  by (auto simp: prefix_def)

lemma grown_failed:
  assumes "prefix tree T" and "prefix reverseTree RT"
  shows "grown tree reverseTree (Inr (failed (T @ RT)))"
  using assms prefix_length_le [OF assms(1)] prefix_length_le [OF assms(2)]
  by (auto simp: grown_def failed_def directionsOnly_def prefix_def)

lemma grown_found:
  assumes "prefix tree T" and "prefix reverseTree RT"
    and "directionsOnly (path sol)" and "take (length T) (searchTree sol) = T"
    and "length (searchTree sol) = length T + length RT"
  shows "grown tree reverseTree (Inr sol)"
proof -
  from assms(1) have le: "length tree \<le> length T" by (rule prefix_length_le)
  from assms(2) have le2: "length reverseTree \<le> length RT" by (rule prefix_length_le)
  have "take (length tree) (searchTree sol) = take (length tree) (take (length T) (searchTree sol))"
    using le by (simp add: min_def)
  also have "\<dots> = tree"
    using assms(1,4) by (simp add: prefix_take)
  finally show ?thesis
    using assms(3,5) le le2 by (simp add: grown_def)
qed

lemma customTwo_loop_grows:
  assumes "set frontier \<subseteq> set tree" and "set reverseFrontier \<subseteq> set reverseTree"
  shows "grown tree reverseTree (customTwo_loop p goal frontier tree reverseFrontier reverseTree)"
proof (rule customTwo_loop_rule
    [where I = "\<lambda>F T RF RT. set F \<subseteq> set T \<and> set RF \<subseteq> set RT \<and> prefix tree T \<and>
                  prefix reverseTree RT"])
  show "set frontier \<subseteq> set tree \<and> set reverseFrontier \<subseteq> set reverseTree \<and> prefix tree tree \<and>
        prefix reverseTree reverseTree"
    using assms by simp
next
  fix F T RF RT F' T' RF' RT'
  assume inv: "set F \<subseteq> set T \<and> set RF \<subseteq> set RT \<and> prefix tree T \<and> prefix reverseTree RT"
    and ne: "F \<noteq> []" "RF \<noteq> []"
    and body: "customTwo_body p goal F T RF RT = Inr (F', T', RF', RT')"
  from customTwo_body_Inr [OF body ne] obtain cs rcs where
    "T' = T @ cs" "RT' = RT @ rcs" "set F' \<subseteq> set F \<union> set cs" "set RF' \<subseteq> set RF \<union> set rcs"
    by blast
  with inv show "set F' \<subseteq> set T' \<and> set RF' \<subseteq> set RT' \<and> prefix tree T' \<and> prefix reverseTree RT'"
    by (auto intro: prefix_prefix)
next
  fix F T RF RT
  assume "set F \<subseteq> set T \<and> set RF \<subseteq> set RT \<and> prefix tree T \<and> prefix reverseTree RT"
  then show "grown tree reverseTree (Inr (failed (T @ RT)))"
    by (simp add: grown_failed)
next
  fix F T RF RT res
  assume inv: "set F \<subseteq> set T \<and> set RF \<subseteq> set RT \<and> prefix tree T \<and> prefix reverseTree RT"
    and ne: "F \<noteq> []" "RF \<noteq> []"
    and body: "customTwo_body p goal F T RF RT = Inl res"
  from inv have sub: "set F \<subseteq> set T" "set RF \<subseteq> set RT" by simp_all
  from customTwo_body_Inl [OF body ne sub] obtain sol where "res = Inr sol"
    "directionsOnly (path sol)" "take (length T) (searchTree sol) = T"
    "length (searchTree sol) = length T + length RT"
    by blast
  with inv show "grown tree reverseTree res"
    by (auto intro: grown_found)
qed

lemma customTwo_grows:
  "grown [getInitialNode startNode goal] [getInitialNode goal (agentLocation p)]
     (customTwo p goal (getInitialNode startNode goal))"
  by (simp add: customTwo_def Let_def customTwo_loop_grows)

definition singleFrontierBodies ::
  "(problem \<Rightarrow> coordinate \<Rightarrow> node list \<Rightarrow> node list \<Rightarrow> solution + (node list \<times> node list)) list" where
  "singleFrontierBodies = [dfs_body, bfs_body, gbfs_body, aStar_body, customOne_body]"

definition singleFrontierLoops ::
  "(problem \<Rightarrow> coordinate \<Rightarrow> node list \<Rightarrow> node list \<Rightarrow> solution) list" where
  "singleFrontierLoops = [dfs_loop, bfs_loop, gbfs_loop, aStar_loop, customOne_loop]"

definition singleFrontierStrategies :: "(problem \<Rightarrow> coordinate \<Rightarrow> node \<Rightarrow> solution) list" where
  "singleFrontierStrategies = [dfs, bfs, gbfs, aStar, customOne]"

lemma body_prefix:
  assumes "body \<in> set singleFrontierBodies"
  shows "case body p goal frontier tree of
           Inl sol \<Rightarrow> searchTree sol = tree
         | Inr (frontier', tree') \<Rightarrow> prefix tree tree'"
  using assms
  by (auto simp: singleFrontierBodies_def dfs_body_def bfs_body_def gbfs_body_def aStar_body_def
      customOne_body_def Let_def found_def split: sum.splits if_splits)

lemma customTwo_body_prefix:
  "case customTwo_body p goal frontier tree reverseFrontier reverseTree of
     Inl res \<Rightarrow> True
   | Inr (frontier', tree', reverseFrontier', reverseTree') \<Rightarrow>
       prefix tree tree' \<and> prefix reverseTree reverseTree'"
  by (auto simp: customTwo_body_def Let_def split: option.splits prod.splits sum.splits if_splits)

text \<open>
  Claim C8, as the code has it.  In every strategy an iteration of the loop only appends
  the new candidates to the search tree (to each of the two trees of \<open>customTwo\<close>), so the
  tree at any moment of the run is a prefix of the tree at any later moment and of the
  tree that is returned.  For \<open>DFS\<close>, \<open>BFS\<close>, \<open>GBFS\<close>, \<open>AS\<close> and \<open>CUS1\<close> every
  entry of the returned path is a node of the returned search tree.  For \<open>CUS2\<close> the path
  entries are new records with a direction label only, none of which is a node of the
  search tree; its returned tree has the forward tree as a prefix and is at least as long
  as the two trees together.
\<close>

theorem searchTree_grows:
  "(\<forall>body \<in> set singleFrontierBodies.
      case body p goal frontier tree of
        Inl sol \<Rightarrow> searchTree sol = tree
      | Inr (frontier', tree') \<Rightarrow> prefix tree tree') \<and>
   (\<forall>loop \<in> set singleFrontierLoops. prefix tree (searchTree (loop p goal frontier tree))) \<and>
   (\<forall>strategy \<in> set singleFrontierStrategies.
      pathInTree (strategy p goal (getInitialNode startNode goal))) \<and>
   (case customTwo_body p goal frontier tree reverseFrontier reverseTree of
      Inl res \<Rightarrow> True
    | Inr (frontier', tree', reverseFrontier', reverseTree') \<Rightarrow>
        prefix tree tree' \<and> prefix reverseTree reverseTree') \<and>
   (set frontier \<subseteq> set tree \<and> set reverseFrontier \<subseteq> set reverseTree \<longrightarrow>
      (\<exists>sol. customTwo_loop p goal frontier tree reverseFrontier reverseTree = Inr sol \<and>
         directionsOnly (path sol) \<and>
         take (length tree) (searchTree sol) = tree \<and>
         length tree + length reverseTree \<le> length (searchTree sol))) \<and>
   (\<exists>sol. customTwo p goal (getInitialNode startNode goal) = Inr sol \<and>
      directionsOnly (path sol) \<and> 2 \<le> length (searchTree sol))"
proof (intro conjI ballI)
  fix body assume b: "body \<in> set singleFrontierBodies"
  show "case body p goal frontier tree of
        Inl sol \<Rightarrow> searchTree sol = tree
      | Inr (frontier', tree') \<Rightarrow> prefix tree tree'"
    by (rule body_prefix [OF b])
next
  fix loop assume "loop \<in> set singleFrontierLoops"
  then show "prefix tree (searchTree (loop p goal frontier tree))"
    using dfs_loop_prefix bfs_loop_prefix gbfs_loop_prefix aStar_loop_prefix customOne_loop_prefix
    by (auto simp: singleFrontierLoops_def)
next
  fix strategy assume "strategy \<in> set singleFrontierStrategies"
  then show "pathInTree (strategy p goal (getInitialNode startNode goal))"
    using dfs_pathInTree bfs_pathInTree gbfs_pathInTree aStar_pathInTree customOne_pathInTree
    by (auto simp: singleFrontierStrategies_def)
next
  show "case customTwo_body p goal frontier tree reverseFrontier reverseTree of
      Inl res \<Rightarrow> True
    | Inr (frontier', tree', reverseFrontier', reverseTree') \<Rightarrow>
        prefix tree tree' \<and> prefix reverseTree reverseTree'"
    by (rule customTwo_body_prefix)
next
  show "set frontier \<subseteq> set tree \<and> set reverseFrontier \<subseteq> set reverseTree \<longrightarrow>
      (\<exists>sol. customTwo_loop p goal frontier tree reverseFrontier reverseTree = Inr sol \<and>
         directionsOnly (path sol) \<and>
         take (length tree) (searchTree sol) = tree \<and>
         length tree + length reverseTree \<le> length (searchTree sol))"
    using customTwo_loop_grows [of frontier tree reverseFrontier reverseTree p goal]
    by (simp add: grown_def)
next
  from customTwo_grows [of startNode goal p]
  show "\<exists>sol. customTwo p goal (getInitialNode startNode goal) = Inr sol \<and>
      directionsOnly (path sol) \<and> 2 \<le> length (searchTree sol)"
    by (auto simp: grown_def)
qed

text \<open>
  A solution of \<open>customTwo\<close> is inspected through its outline and the two tests on its path.
\<close>

definition inspect :: "js_error + solution \<Rightarrow>
  js_error + ((status \<times> string list \<times> (int \<times> int \<times> int \<times> bool) list) \<times> bool \<times> bool)" where
  "inspect res = (case res of Inl e \<Rightarrow> Inl e
                  | Inr sol \<Rightarrow> Inr (outline sol, pathInTree sol, directionsOnly (path sol)))"

text \<open>
  A run against C8 as it is written: in the wall-free maze of one row and two columns,
  \<open>customTwo\<close> from (0,0) to (1,0) returns \<open>Found\<close> with a path of one entry, the direction
  label \<open>right\<close>; that entry is no node of the returned search tree of four nodes.
\<close>

theorem searchTree_grows_counterexample:
  "(let goal = \<lparr>x_of = 1, y_of = 0\<rparr>;
        p = \<lparr>mazeSize = \<lparr>rows = 1, columns = 2\<rparr>, agentLocation = \<lparr>x_of = 0, y_of = 0\<rparr>,
             goals = [goal], walls = []\<rparr>
    in inspect (customTwo p goal (getInitialNode (agentLocation p) goal))
         = Inr ((Found, [''right; ''],
                 [(0, 0, 0, False), (1, 0, 1, True), (1, 0, 0, False), (0, 0, 1, True)]),
                False, True))"
  by code_simp

text \<open>
  Runs for C8 as amended, in the same maze: the first iteration of \<open>bfs\<close> appends the
  candidate to the tree, the path of \<open>bfs\<close> lies in its tree, and the bidirectional loop
  started from the two roots returns a path of direction labels only.
\<close>

theorem searchTree_grows_witness:
  "(let goal = \<lparr>x_of = 1, y_of = 0\<rparr>;
        p = \<lparr>mazeSize = \<lparr>rows = 1, columns = 2\<rparr>, agentLocation = \<lparr>x_of = 0, y_of = 0\<rparr>,
             goals = [goal], walls = []\<rparr>;
        r = getInitialNode \<lparr>x_of = 0, y_of = 0\<rparr> goal;
        rr = getInitialNode goal \<lparr>x_of = 0, y_of = 0\<rparr>;
        n = Node ''right; '' goal True [r]
              \<lparr>fromCurrentNode = 0, fromStartingNode = 1, nodesTravelled = 1\<rparr> 1
    in bfs_body \<in> set singleFrontierBodies \<and>
       bfs_body p goal [r] [r] = Inr ([n], [r, n]) \<and> prefix [r] [r, n] \<and>
       bfs_loop \<in> set singleFrontierLoops \<and>
       prefix [r] (searchTree (bfs_loop p goal [r] [r])) \<and>
       bfs \<in> set singleFrontierStrategies \<and>
       pathInTree (bfs p goal r) \<and>
       outline (bfs p goal r) = (Found, [''right; ''], [(0, 0, 0, False), (1, 0, 1, True)]) \<and>
       set [r] \<subseteq> set [r] \<and> set [rr] \<subseteq> set [rr] \<and>
       inspect (customTwo_loop p goal [r] [r] [rr] [rr])
         = Inr ((Found, [''right; ''],
                 [(0, 0, 0, False), (1, 0, 1, True), (1, 0, 0, False), (0, 0, 1, True)]),
                False, True))"
proof -
  let ?goal = "\<lparr>x_of = 1, y_of = 0\<rparr>"
  let ?p = "\<lparr>mazeSize = \<lparr>rows = 1, columns = 2\<rparr>, agentLocation = \<lparr>x_of = 0, y_of = 0\<rparr>,
             goals = [?goal], walls = []\<rparr>"
  let ?r = "getInitialNode \<lparr>x_of = 0, y_of = 0\<rparr> ?goal"
  let ?rr = "getInitialNode ?goal \<lparr>x_of = 0, y_of = 0\<rparr>"
  let ?n = "Node ''right; '' ?goal True [?r]
              \<lparr>fromCurrentNode = 0, fromStartingNode = 1, nodesTravelled = 1\<rparr> 1"
  have mem: "bfs_body \<in> set singleFrontierBodies" "bfs_loop \<in> set singleFrontierLoops"
    "bfs \<in> set singleFrontierStrategies"
    by (simp_all add: singleFrontierBodies_def singleFrontierLoops_def singleFrontierStrategies_def)
  have sub: "set [?r] \<subseteq> set [?r] \<and> set [?rr] \<subseteq> set [?rr]" by simp
  have body: "bfs_body ?p ?goal [?r] [?r] = Inr ([?n], [?r, ?n])"
    by code_simp
  have run: "outline (bfs ?p ?goal ?r) = (Found, [''right; ''], [(0, 0, 0, False), (1, 0, 1, True)])"
    by code_simp
  have two: "inspect (customTwo_loop ?p ?goal [?r] [?r] [?rr] [?rr])
         = Inr ((Found, [''right; ''],
                 [(0, 0, 0, False), (1, 0, 1, True), (1, 0, 0, False), (0, 0, 1, True)]),
                False, True)"
    by code_simp
  note t = searchTree_grows [where p = ?p and goal = ?goal and frontier = "[?r]" and tree = "[?r]"
      and startNode = "\<lparr>x_of = 0, y_of = 0\<rparr>" and reverseFrontier = "[?rr]"
      and reverseTree = "[?rr]"]
  from t mem body have "prefix [?r] [?r, ?n]" by force
  moreover from t mem have "prefix [?r] (searchTree (bfs_loop ?p ?goal [?r] [?r]))" by blast
  moreover from t mem have "pathInTree (bfs ?p ?goal ?r)" by blast
  ultimately show ?thesis
    using mem sub body run two by (simp add: Let_def)
qed

section \<open>Breadth-first search on a wall-free maze\<close>

lemma manhattan_nonneg: "0 \<le> manhattan a b"
  by (simp add: manhattan_def)

lemma manhattan_zero_iff: "manhattan a b = 0 \<longleftrightarrow> a = b"
  by (auto simp: manhattan_def coordinate_eq_iff)

lemma manhattan_neighbour:
  assumes "c \<in> set (searchLocations c')"
  shows "manhattan s c = manhattan s c' + 1 \<or> manhattan s c = manhattan s c' - 1"
  using assms by (auto simp: searchLocations_def manhattan_def)

lemma closer_neighbour:
  assumes "c \<noteq> s" and "\<not> checkOutOfBounds c ms" and "\<not> checkOutOfBounds s ms"
  shows "\<exists>c'. \<not> checkOutOfBounds c' ms \<and> c \<in> set (searchLocations c') \<and>
               manhattan s c' = manhattan s c - 1"
proof (cases "x_of c = x_of s")
  case True
  with assms(1) have y: "y_of c \<noteq> y_of s" by (simp add: coordinate_eq_iff)
  let ?c' = "\<lparr>x_of = x_of c, y_of = (if y_of c < y_of s then y_of c + 1 else y_of c - 1)\<rparr>"
  have "\<not> checkOutOfBounds ?c' ms"
    using assms(2,3) y by (auto simp: checkOutOfBounds_def)
  moreover have "c \<in> set (searchLocations ?c')"
    by (auto simp: searchLocations_def coordinate_eq_iff)
  moreover have "manhattan s ?c' = manhattan s c - 1"
    using y by (auto simp: manhattan_def)
  ultimately show ?thesis by blast
next
  case False
  let ?c' = "\<lparr>x_of = (if x_of c < x_of s then x_of c + 1 else x_of c - 1), y_of = y_of c\<rparr>"
  have "\<not> checkOutOfBounds ?c' ms"
    using assms(2,3) False by (auto simp: checkOutOfBounds_def)
  moreover have "c \<in> set (searchLocations ?c')"
    by (auto simp: searchLocations_def coordinate_eq_iff)
  moreover have "manhattan s ?c' = manhattan s c - 1"
    using False by (auto simp: manhattan_def)
  ultimately show ?thesis by blast
qed


text \<open>
  The invariant of the breadth-first loop on a wall-free maze.  The search tree is the list
  \<open>E\<close> of the nodes expanded so far followed by the frontier \<open>F\<close>.  Every node lies in
  the maze and has as many ancestors as its Manhattan distance from the start; the
  frontier is ordered by that distance and spans at most two consecutive distances; every
  expanded node is off the goal and has all its neighbours inside the maze in the tree;
  and a frontier node is flagged as the goal exactly when it is at the goal.
\<close>

definition fromStart :: "coordinate \<Rightarrow> node \<Rightarrow> int" where
  "fromStart s n = manhattan s (coordinates n)"

definition layered :: "problem \<Rightarrow> coordinate \<Rightarrow> coordinate \<Rightarrow> node list \<Rightarrow> node list \<Rightarrow> bool" where
  "layered p s g E F \<longleftrightarrow>
     s \<in> coordinates ` set (E @ F) \<and>
     (\<forall>n \<in> set (E @ F). \<not> checkOutOfBounds (coordinates n) (mazeSize p) \<and>
                          int (length (previousCoordinates n)) = fromStart s n) \<and>
     sorted (map (fromStart s) F) \<and>
     (\<forall>n \<in> set (E @ F). \<forall>f \<in> set F. fromStart s n \<le> fromStart s f + 1) \<and>
     (\<forall>n \<in> set E. coordinates n \<noteq> g \<and>
        (\<forall>c \<in> set (searchLocations (coordinates n)).
           \<not> checkOutOfBounds c (mazeSize p) \<longrightarrow> c \<in> coordinates ` set (E @ F))) \<and>
     (\<forall>n \<in> set F. isGoal n \<longleftrightarrow> coordinates n = g)"

lemma layered_covers:
  assumes "layered p s g E F" and "\<not> checkOutOfBounds s (mazeSize p)"
    and "\<not> checkOutOfBounds c (mazeSize p)"
    and "\<forall>f \<in> set F. manhattan s c \<le> fromStart s f"
  shows "c \<in> coordinates ` set (E @ F)"
  using assms(3,4)
proof (induction "nat (manhattan s c)" arbitrary: c)
  case 0
  then have "manhattan s c = 0"
    using manhattan_nonneg [of s c] by simp
  then have "c = s" by (simp add: manhattan_zero_iff)
  with assms(1) show ?case by (simp add: layered_def)
next
  case (Suc k)
  then have pos: "manhattan s c = int k + 1" by linarith
  then have "c \<noteq> s" using manhattan_zero_iff [of s s] by auto
  from closer_neighbour [OF this Suc.prems(1) assms(2)]
  obtain c' where c': "\<not> checkOutOfBounds c' (mazeSize p)" "c \<in> set (searchLocations c')"
    "manhattan s c' = manhattan s c - 1" by blast
  have "k = nat (manhattan s c')" using c'(3) pos by simp
  moreover have "\<forall>f \<in> set F. manhattan s c' \<le> fromStart s f"
    using Suc.prems(2) c'(3) by fastforce
  ultimately have "c' \<in> coordinates ` set (E @ F)"
    using Suc.hyps(1) c'(1) by blast
  then obtain m where m: "m \<in> set (E @ F)" "coordinates m = c'" by auto
  have "m \<notin> set F"
  proof
    assume "m \<in> set F"
    with Suc.prems(2) have "manhattan s c \<le> fromStart s m" by blast
    with m(2) c'(3) show False by (simp add: fromStart_def)
  qed
  with m(1) have "m \<in> set E" by simp
  with assms(1) m(2) c'(2) Suc.prems(1) show ?case
    unfolding layered_def by blast
qed

lemma searchSpace_coordinates:
  "map coordinates (searchSpace c pth goal) = searchLocations c"
  by (simp add: searchSpace_def searchLocations_def directionString_def)

lemma probeCoordinates_complete:
  assumes "c \<in> set (searchLocations c0)" and "\<not> checkOutOfBounds c ms"
    and "c \<notin> coordinates ` set tree"
  shows "c \<in> coordinates ` set (probeCoordinates c0 pth ms goal [] tree)"
proof -
  from assms(1) have "c \<in> set (map coordinates (searchSpace c0 pth goal))"
    by (simp add: searchSpace_coordinates)
  then obtain n where n: "n \<in> set (searchSpace c0 pth goal)" "coordinates n = c" by auto
  with assms(2,3) have "n \<in> set (probeCoordinates c0 pth ms goal [] tree)"
    by (simp add: probeCoordinates_def checkWall_def checkBacktrack_iff)
  with n(2) show ?thesis by blast
qed


lemma sorted_map_const:
  assumes "\<forall>x \<in> set xs. f x = (k::int)"
  shows "sorted (map f xs)"
  using assms by (induction xs) auto

lemma layered_step:
  assumes inv: "layered p s g E (s0 # F0)" and ng: "\<not> isGoal s0" and w: "walls p = []"
    and sb: "\<not> checkOutOfBounds s (mazeSize p)"
    and cs: "cs = probeCoordinates (coordinates s0) (previousCoordinates s0 @ [s0])
                    (mazeSize p) g (walls p) (E @ s0 # F0)"
  shows "layered p s g (E @ [s0]) (F0 @ cs)"
proof -
  let ?T = "E @ s0 # F0"
  let ?d = "fromStart s s0"
  from inv have s_in: "s \<in> coordinates ` set ?T"
    and old: "\<And>n. n \<in> set ?T \<Longrightarrow> \<not> checkOutOfBounds (coordinates n) (mazeSize p) \<and>
                          int (length (previousCoordinates n)) = fromStart s n"
    and srt: "sorted (map (fromStart s) (s0 # F0))"
    and near: "\<And>n f. n \<in> set ?T \<Longrightarrow> f \<in> set (s0 # F0) \<Longrightarrow> fromStart s n \<le> fromStart s f + 1"
    and expd: "\<And>n. n \<in> set E \<Longrightarrow> coordinates n \<noteq> g \<and>
        (\<forall>c \<in> set (searchLocations (coordinates n)).
           \<not> checkOutOfBounds c (mazeSize p) \<longrightarrow> c \<in> coordinates ` set ?T)"
    and gl: "\<And>n. n \<in> set (s0 # F0) \<Longrightarrow> isGoal n \<longleftrightarrow> coordinates n = g"
    unfolding layered_def by blast+
  from srt have ge: "\<And>f. f \<in> set F0 \<Longrightarrow> ?d \<le> fromStart s f" and srt0: "sorted (map (fromStart s) F0)"
    by auto
  have fresh: "\<not> checkOutOfBounds (coordinates n) (mazeSize p) \<and>
        coordinates n \<notin> coordinates ` set ?T \<and>
        coordinates n \<in> set (searchLocations (coordinates s0)) \<and>
        previousCoordinates n = previousCoordinates s0 @ [s0] \<and>
        (isGoal n \<longleftrightarrow> coordinates n = g)" if "n \<in> set cs" for n
  proof -
    from that cs have n: "n \<in> set (probeCoordinates (coordinates s0) (previousCoordinates s0 @ [s0])
                    (mazeSize p) g (walls p) ?T)" by simp
    from probeCoordinates_fresh [OF n] probeCoordinates_fields(1,3,5) [OF n]
    show ?thesis by (simp add: checkGoal_iff)
  qed
  have dist: "fromStart s n = ?d + 1" if "n \<in> set cs" for n
  proof (rule ccontr)
    assume "fromStart s n \<noteq> ?d + 1"
    with manhattan_neighbour [of "coordinates n" "coordinates s0" s] fresh [OF that]
    have low: "manhattan s (coordinates n) = ?d - 1"
      by (auto simp: fromStart_def)
    have "\<forall>f \<in> set (s0 # F0). manhattan s (coordinates n) \<le> fromStart s f"
      using low ge by fastforce
    from layered_covers [OF inv sb _ this] fresh [OF that]
    show False by blast
  qed
  have 1: "s \<in> coordinates ` set ((E @ [s0]) @ F0 @ cs)"
    using s_in by auto
  have 2: "\<not> checkOutOfBounds (coordinates n) (mazeSize p) \<and>
           int (length (previousCoordinates n)) = fromStart s n"
    if "n \<in> set ((E @ [s0]) @ F0 @ cs)" for n
  proof (cases "n \<in> set cs")
    case True
    from old [of s0] have "int (length (previousCoordinates s0)) = ?d" by simp
    with fresh [OF True] dist [OF True] show ?thesis by simp
  next
    case False
    with that have "n \<in> set ?T" by auto
    then show ?thesis by (rule old)
  qed
  have 3: "sorted (map (fromStart s) (F0 @ cs))"
  proof -
    have "sorted (map (fromStart s) cs)"
      by (rule sorted_map_const [where k = "?d + 1"]) (simp add: dist)
    moreover have "fromStart s a \<le> fromStart s b" if "a \<in> set F0" "b \<in> set cs" for a b
      using near [of a s0] that dist [of b] by simp
    ultimately show ?thesis
      using srt0 by (auto simp: sorted_append)
  qed
  have 4: "fromStart s n \<le> fromStart s f + 1"
    if "n \<in> set ((E @ [s0]) @ F0 @ cs)" "f \<in> set (F0 @ cs)" for n f
  proof -
    have n: "fromStart s n \<le> ?d + 1"
    proof (cases "n \<in> set cs")
      case True
      then show ?thesis by (simp add: dist)
    next
      case False
      with that(1) have "n \<in> set ?T" by auto
      from near [OF this, of s0] show ?thesis by simp
    qed
    have "?d \<le> fromStart s f"
    proof (cases "f \<in> set cs")
      case True
      then show ?thesis by (simp add: dist)
    next
      case False
      with that(2) have "f \<in> set F0" by simp
      then show ?thesis by (rule ge)
    qed
    with n show ?thesis by simp
  qed
  have 5: "coordinates n \<noteq> g \<and>
        (\<forall>c \<in> set (searchLocations (coordinates n)).
           \<not> checkOutOfBounds c (mazeSize p) \<longrightarrow> c \<in> coordinates ` set ((E @ [s0]) @ F0 @ cs))"
    if "n \<in> set (E @ [s0])" for n
  proof (cases "n = s0")
    case True
    from gl [of s0] ng have "coordinates s0 \<noteq> g" by simp
    moreover have "c \<in> coordinates ` set ((E @ [s0]) @ F0 @ cs)"
      if c: "c \<in> set (searchLocations (coordinates s0))" "\<not> checkOutOfBounds c (mazeSize p)" for c
    proof (cases "c \<in> coordinates ` set ?T")
      case True
      then show ?thesis by auto
    next
      case False
      from probeCoordinates_complete [OF c False, of "previousCoordinates s0 @ [s0]" g] cs w
      have "c \<in> coordinates ` set cs" by simp
      then show ?thesis by auto
    qed
    ultimately show ?thesis using True by blast
  next
    case False
    with that have "n \<in> set E" by simp
    from expd [OF this] show ?thesis by auto
  qed
  have 6: "isGoal n \<longleftrightarrow> coordinates n = g" if "n \<in> set (F0 @ cs)" for n
  proof (cases "n \<in> set cs")
    case True
    with fresh show ?thesis by blast
  next
    case False
    with that have "n \<in> set (s0 # F0)" by simp
    then show ?thesis by (rule gl)
  qed
  show ?thesis
    unfolding layered_def using 1 2 3 4 5 6 by blast
qed

lemma bfs_loop_layered:
  assumes "T = E @ F" and "layered p s g E F" and "walls p = []"
    and "\<not> checkOutOfBounds s (mazeSize p)" and "\<not> checkOutOfBounds g (mazeSize p)"
  shows "status (bfs_loop p g F T) = Found \<and>
         int (length (path (bfs_loop p g F T))) = manhattan s g"
  using assms
proof (induction p g F T arbitrary: E rule: bfs_loop.induct)
  case (1 p g F T)
  note T = "1.prems"(1) and inv = "1.prems"(2) and w = "1.prems"(3)
    and sb = "1.prems"(4) and gb = "1.prems"(5)
  show ?case
  proof (cases F)
    case Nil
    with layered_covers [OF inv sb gb] have "g \<in> coordinates ` set E" by simp
    with inv Nil show ?thesis
      unfolding layered_def by auto
  next
    case (Cons s0 F0)
    show ?thesis
    proof (cases "isGoal s0")
      case True
      with inv Cons have at: "coordinates s0 = g"
        and len: "int (length (previousCoordinates s0)) = fromStart s s0"
        unfolding layered_def by auto
      from True Cons have "bfs_loop p g F T = found (previousCoordinates s0 @ [s0]) T"
        by (simp add: bfs_loop.simps [of p g "s0 # F0" T] bfs_body_def)
      with at len show ?thesis
        by (simp add: found_def fromStart_def)
    next
      case False
      let ?cs = "probeCoordinates (coordinates s0) (previousCoordinates s0 @ [s0])
                    (mazeSize p) g (walls p) T"
      from False Cons have body: "bfs_body p g F T = Inr (F0 @ ?cs, T @ ?cs)"
        by (simp add: bfs_body_def Let_def)
      then have eq: "bfs_loop p g F T = bfs_loop p g (F0 @ ?cs) (T @ ?cs)"
        using Cons by (simp add: bfs_loop.simps [of p g "s0 # F0" T])
      have inv': "layered p s g (E @ [s0]) (F0 @ ?cs)"
        using inv False w sb T Cons by (intro layered_step) simp_all
      have "T @ ?cs = (E @ [s0]) @ F0 @ ?cs"
        using T Cons by simp
      from "1.IH" [OF _ body refl this inv' w sb gb] Cons eq show ?thesis
        by simp
    qed
  qed
qed

lemma bfs_open_maze:
  assumes "walls p = []"
    and "\<not> checkOutOfBounds start (mazeSize p)" and "\<not> checkOutOfBounds goal (mazeSize p)"
    and "start \<noteq> goal"
  shows "status (bfs p goal (getInitialNode start goal)) = Found \<and>
         int (length (path (bfs p goal (getInitialNode start goal)))) = manhattan start goal"
proof -
  let ?r = "getInitialNode start goal"
  have "layered p start goal [] [?r]"
    using assms(2,4)
    by (simp add: layered_def getInitialNode_def fromStart_def manhattan_def)
  from bfs_loop_layered [OF _ this assms(1-3)] show ?thesis
    by (simp add: bfs_def)
qed

section \<open>Breadth-first search and A* when the start is the goal\<close>

definition report ::
  "js_error + js_value \<Rightarrow> (status \<times> string list \<times> (int \<times> int \<times> int \<times> bool) list) option" where
  "report res = (case res of Inr (SolutionValue sol) \<Rightarrow> Some (outline sol) | _ \<Rightarrow> None)"

text \<open>
  Claim C2 at a failing input.  In a wall-free maze of two rows and two columns with
  start and goal both at (0,0), the Manhattan distance is 0, and \<open>BFS\<close> returns \<open>Fail\<close>
  after it has generated all four cells: the root is built with \<open>isGoal = false\<close> and its
  coordinate is never generated again.
\<close>

theorem bfs_start_is_goal_fails:
  "(let p = \<lparr>mazeSize = \<lparr>rows = 2, columns = 2\<rparr>, agentLocation = \<lparr>x_of = 0, y_of = 0\<rparr>,
             goals = [\<lparr>x_of = 0, y_of = 0\<rparr>], walls = []\<rparr>
    in manhattan (agentLocation p) \<lparr>x_of = 0, y_of = 0\<rparr> = 0 \<and>
       report (searchMaze p ''BFS'' False)
         = Some (Fail, [],
                 [(0, 0, 0, False), (0, 1, 1, False), (1, 0, 1, False), (1, 1, 2, False)]))"
  by code_simp

text \<open>
  Away from that input C2 holds (\<open>bfs_open_maze\<close> above: on a wall-free maze with start
  and goal in bounds and different, \<open>BFS\<close> returns \<open>Found\<close> with a path as long as the
  Manhattan distance).  Its scenario: in the wall-free maze of five rows and five columns,
  \<open>BFS\<close> from (0,0) to (4,4) returns \<open>Found\<close> with a path of eight moves.
\<close>

lemma bfs_five_by_five:
  "(let p = \<lparr>mazeSize = \<lparr>rows = 5, columns = 5\<rparr>, agentLocation = \<lparr>x_of = 0, y_of = 0\<rparr>,
             goals = [\<lparr>x_of = 4, y_of = 4\<rparr>], walls = []\<rparr>;
        sol = bfs p \<lparr>x_of = 4, y_of = 4\<rparr> (getInitialNode (agentLocation p) \<lparr>x_of = 4, y_of = 4\<rparr>)
    in searchMaze p ''BFS'' False = Inr (SolutionValue sol) \<and>
       status sol = Found \<and> length (path sol) = 8)"
proof -
  let ?p = "\<lparr>mazeSize = \<lparr>rows = 5, columns = 5\<rparr>, agentLocation = \<lparr>x_of = 0, y_of = 0\<rparr>,
             goals = [\<lparr>x_of = 4, y_of = 4\<rparr>], walls = []\<rparr>"
  have "status (bfs ?p \<lparr>x_of = 4, y_of = 4\<rparr> (getInitialNode \<lparr>x_of = 0, y_of = 0\<rparr> \<lparr>x_of = 4, y_of = 4\<rparr>)) = Found \<and>
        int (length (path (bfs ?p \<lparr>x_of = 4, y_of = 4\<rparr>
               (getInitialNode \<lparr>x_of = 0, y_of = 0\<rparr> \<lparr>x_of = 4, y_of = 4\<rparr>))))
          = manhattan \<lparr>x_of = 0, y_of = 0\<rparr> \<lparr>x_of = 4, y_of = 4\<rparr>"
    by (rule bfs_open_maze) (simp_all add: checkOutOfBounds_def)
  then show ?thesis
    by (simp add: Let_def searchMaze_def findSolution_def selectAlgorithm_def manhattan_def)
qed

text \<open>
  Claim C7 at a failing input.  In a wall-free maze of three rows and three columns with
  start and goal both at (1,1), \<open>AS\<close> returns \<open>Fail\<close> after generating all nine cells,
  while \<open>CUS2\<close> returns \<open>Found\<close>; both paths are empty.
\<close>

theorem aStar_customTwo_start_is_goal:
  "(let p = \<lparr>mazeSize = \<lparr>rows = 3, columns = 3\<rparr>, agentLocation = \<lparr>x_of = 1, y_of = 1\<rparr>,
             goals = [\<lparr>x_of = 1, y_of = 1\<rparr>], walls = []\<rparr>
    in map_option (\<lambda>(s, ds, t). (s, ds, length t)) (report (searchMaze p ''AS'' False))
         = Some (Fail, [], 9) \<and>
       report (searchMaze p ''CUS2'' False)
         = Some (Found, [], [(1, 1, 0, False), (1, 1, 0, False)]))"
  by code_simp

text \<open>
  Away from that input the two strategies agree, as in the wall-free 3 by 3 maze from
  (0,0) to (2,2): both return \<open>Found\<close> with four moves, from trees of different sizes.
\<close>

lemma aStar_customTwo_three_by_three:
  "(let p = \<lparr>mazeSize = \<lparr>rows = 3, columns = 3\<rparr>, agentLocation = \<lparr>x_of = 0, y_of = 0\<rparr>,
             goals = [\<lparr>x_of = 2, y_of = 2\<rparr>], walls = []\<rparr>
    in map_option (\<lambda>(s, ds, t). (s, length ds, length t)) (report (searchMaze p ''AS'' False))
         = Some (Found, 4, 9) \<and>
       map_option (\<lambda>(s, ds, t). (s, length ds, length t)) (report (searchMaze p ''CUS2'' False))
         = Some (Found, 4, 12))"
  by code_simp

end
